(* ===== verification/Prelude.thy ===== *)
theory Prelude
  imports Main "HOL-Library.Char_ord" "HOL-Library.List_Lexorder" "HOL-Library.Code_Target_Nat"
begin

text \<open>
  Shared vocabulary of the development: the exceptions the Python code can meet, the
  computations of a Python function (state, exceptions and non-termination made explicit),
  a weakest-precondition calculus for them, and the generic list and option lemmas the
  component theories use.

  A computation takes the state and gives \<open>None\<close> when it never returns, and otherwise the
  outcome (\<open>Inl\<close> a raised exception, \<open>Inr\<close> a returned value) with the state it leaves.
  The state a raising function leaves is the state at the raise: Python does not roll back.
\<close>

named_theorems wp_rules \<open>weakest preconditions of the program combinators\<close>
named_theorems py_defs \<open>definitions of the program combinators\<close>

subsection \<open>Exceptions\<close>

datatype exn =
    KeyError string
  | TypeError
  | AttributeError
  | ValueError
  | JSONDecodeError
  | UnicodeDecodeError
  | UnicodeEncodeError
  | RecursionError
  | RuntimeError string
  | OSError
  | TimeoutExpired
  | RedisConnectionError
  | RedisTimeoutError
  | RedisResponseError
  | RedisDataError
  | KafkaException
  | SystemExit int

text \<open>
  Class tests of \<open>except\<close> clauses. Every constructor but \<open>SystemExit\<close> is below
  \<open>Exception\<close>; the four Redis errors are below \<open>redis.exceptions.RedisError\<close>.
\<close>

fun is_Exception :: "exn \<Rightarrow> bool" where
  "is_Exception (SystemExit _) = False"
| "is_Exception _ = True"

fun is_RedisError :: "exn \<Rightarrow> bool" where
  "is_RedisError RedisConnectionError = True"
| "is_RedisError RedisTimeoutError = True"
| "is_RedisError RedisResponseError = True"
| "is_RedisError RedisDataError = True"
| "is_RedisError _ = False"

fun is_connection_error :: "exn \<Rightarrow> bool" where
  "is_connection_error RedisConnectionError = True"
| "is_connection_error RedisTimeoutError = True"
| "is_connection_error _ = False"

lemma connection_error_is_RedisError: "is_connection_error e \<Longrightarrow> is_RedisError e"
  by (cases e) auto

lemma RedisError_is_Exception: "is_RedisError e \<Longrightarrow> is_Exception e"
  by (cases e) auto

subsection \<open>Computations\<close>

type_synonym ('s, 'a) py = "'s \<Rightarrow> ((exn + 'a) \<times> 's) option"

definition return_py :: "'a \<Rightarrow> ('s, 'a) py" where
  [py_defs]: "return_py x = (\<lambda>s. Some (Inr x, s))"

definition raise_py :: "exn \<Rightarrow> ('s, 'a) py" where
  [py_defs]: "raise_py e = (\<lambda>s. Some (Inl e, s))"

definition bind_py :: "('s, 'a) py \<Rightarrow> ('a \<Rightarrow> ('s, 'b) py) \<Rightarrow> ('s, 'b) py" where
  [py_defs]: "bind_py m f = (\<lambda>s. Option.bind (m s) (\<lambda>(r, s').
     case r of Inl e \<Rightarrow> Some (Inl e, s') | Inr x \<Rightarrow> f x s'))"

text \<open>\<open>seq_py m n\<close> is the statement sequence \<open>m; n\<close>.\<close>

definition seq_py :: "('s, 'a) py \<Rightarrow> ('s, 'b) py \<Rightarrow> ('s, 'b) py" where
  [py_defs]: "seq_py m n = bind_py m (\<lambda>_. n)"

text \<open>\<open>try: m  except C as e: h e\<close>, where \<open>C\<close> is the class test.\<close>

definition try_except ::
  "('s, 'a) py \<Rightarrow> (exn \<Rightarrow> bool) \<Rightarrow> (exn \<Rightarrow> ('s, 'a) py) \<Rightarrow> ('s, 'a) py" where
  [py_defs]: "try_except m C h = (\<lambda>s. Option.bind (m s) (\<lambda>(r, s').
     case r of Inl e \<Rightarrow> (if C e then h e s' else Some (Inl e, s')) | Inr x \<Rightarrow> Some (Inr x, s')))"

text \<open>
  \<open>try: m  finally: f\<close>: the clean-up runs on both exits; an exception it raises replaces the
  outcome of \<open>m\<close>.
\<close>

definition try_finally :: "('s, 'a) py \<Rightarrow> ('s, unit) py \<Rightarrow> ('s, 'a) py" where
  [py_defs]: "try_finally m f = (\<lambda>s. Option.bind (m s) (\<lambda>(r, s').
     Option.bind (f s') (\<lambda>(r', s''). case r' of Inl e \<Rightarrow> Some (Inl e, s'') | Inr _ \<Rightarrow> Some (r, s''))))"

definition get_py :: "('s \<Rightarrow> 'a) \<Rightarrow> ('s, 'a) py" where
  [py_defs]: "get_py f = (\<lambda>s. Some (Inr (f s), s))"

definition modify_py :: "('s \<Rightarrow> 's) \<Rightarrow> ('s, unit) py" where
  [py_defs]: "modify_py f = (\<lambda>s. Some (Inr (), f s))"

text \<open>A value computed by a function that may raise, inside a computation.\<close>

definition lift_sum :: "exn + 'a \<Rightarrow> ('s, 'a) py" where
  [py_defs]: "lift_sum r = (\<lambda>s. Some (r, s))"

primrec for_py :: "'a list \<Rightarrow> ('a \<Rightarrow> ('s, unit) py) \<Rightarrow> ('s, unit) py" where
  "for_py [] f = return_py ()"
| "for_py (x # xs) f = seq_py (f x) (for_py xs f)"

text \<open>List comprehensions whose filter is itself a computation.\<close>

primrec filter_py :: "('a \<Rightarrow> ('s, bool) py) \<Rightarrow> 'a list \<Rightarrow> ('s, 'a list) py" where
  "filter_py f [] = return_py []"
| "filter_py f (x # xs) =
     bind_py (f x) (\<lambda>b. bind_py (filter_py f xs) (\<lambda>ys. return_py (if b then x # ys else ys)))"

text \<open>Sequencing of expressions that may raise.\<close>

definition bind_sum :: "exn + 'a \<Rightarrow> ('a \<Rightarrow> exn + 'b) \<Rightarrow> exn + 'b" where
  "bind_sum r f = (case r of Inl e \<Rightarrow> Inl e | Inr x \<Rightarrow> f x)"

lemma bind_sum_simps [simp]: "bind_sum (Inl e) f = Inl e" "bind_sum (Inr x) f = f x"
  by (simp_all add: bind_sum_def)

lemma bind_sum_Inr: "bind_sum r f = Inr y \<longleftrightarrow> (\<exists>x. r = Inr x \<and> f x = Inr y)"
  by (cases r) auto

subsection \<open>Weakest preconditions\<close>

text \<open>
  \<open>wp d m Q E s\<close>: from \<open>s\<close>, a returned value satisfies \<open>Q\<close>, a raised exception satisfies
  \<open>E\<close>; a computation that never returns satisfies it exactly when \<open>d\<close> holds, so \<open>d = False\<close>
  is total and \<open>d = True\<close> is partial correctness.
\<close>

definition wp ::
  "bool \<Rightarrow> ('s, 'a) py \<Rightarrow> ('a \<Rightarrow> 's \<Rightarrow> bool) \<Rightarrow> (exn \<Rightarrow> 's \<Rightarrow> bool) \<Rightarrow> 's \<Rightarrow> bool" where
  "wp d m Q E s = (case m s of None \<Rightarrow> d
     | Some (r, s') \<Rightarrow> (case r of Inl e \<Rightarrow> E e s' | Inr x \<Rightarrow> Q x s'))"

lemma wp_return [wp_rules]: "wp d (return_py x) Q E s = Q x s"
  by (simp add: wp_def return_py_def)

lemma wp_raise [wp_rules]: "wp d (raise_py e) Q E s = E e s"
  by (simp add: wp_def raise_py_def)

lemma wp_bind [wp_rules]: "wp d (bind_py m f) Q E s = wp d m (\<lambda>x. wp d (f x) Q E) E s"
  by (auto simp: wp_def bind_py_def split: option.split sum.split)

lemma wp_seq [wp_rules]: "wp d (seq_py m n) Q E s = wp d m (\<lambda>_. wp d n Q E) E s"
  by (simp add: seq_py_def wp_bind)

lemma wp_try_except [wp_rules]:
  "wp d (try_except m C h) Q E s = wp d m Q (\<lambda>e s'. if C e then wp d (h e) Q E s' else E e s') s"
  by (auto simp: wp_def try_except_def split: option.split sum.split)

lemma wp_try_finally [wp_rules]:
  "wp d (try_finally m f) Q E s =
     wp d m (\<lambda>x. wp d f (\<lambda>_. Q x) E) (\<lambda>e. wp d f (\<lambda>_. E e) E) s"
  by (auto simp: wp_def try_finally_def split: option.split sum.split)

lemma wp_get [wp_rules]: "wp d (get_py f) Q E s = Q (f s) s"
  by (simp add: wp_def get_py_def)

lemma wp_modify [wp_rules]: "wp d (modify_py f) Q E s = Q () (f s)"
  by (simp add: wp_def modify_py_def)

lemma wp_lift_sum [wp_rules]:
  "wp d (lift_sum r) Q E s = (case r of Inl e \<Rightarrow> E e s | Inr x \<Rightarrow> Q x s)"
  by (simp add: wp_def lift_sum_def)

lemma wp_if [wp_rules]: "wp d (if b then m else n) Q E s = (if b then wp d m Q E s else wp d n Q E s)"
  by simp

text \<open>Consequence: weaker postconditions are easier to meet.\<close>

lemma wp_mono:
  assumes "wp d m Q E s"
    and "\<And>x s'. m s = Some (Inr x, s') \<Longrightarrow> Q x s' \<Longrightarrow> Q' x s'"
    and "\<And>e s'. m s = Some (Inl e, s') \<Longrightarrow> E e s' \<Longrightarrow> E' e s'"
  shows "wp d m Q' E' s"
  using assms by (auto simp: wp_def split: option.splits sum.splits)

text \<open>Composition, by a condition that holds between the two computations.\<close>

lemma wp_bindI:
  assumes "wp d m P E s" and "\<And>x s'. P x s' \<Longrightarrow> wp d (f x) Q E s'"
  shows "wp d (bind_py m f) Q E s"
  unfolding wp_bind by (rule wp_mono [OF assms(1)]) (auto intro: assms(2))

lemma wp_seqI:
  assumes "wp d m (\<lambda>_. P) E s" and "\<And>s'. P s' \<Longrightarrow> wp d n Q E s'"
  shows "wp d (seq_py m n) Q E s"
  unfolding seq_py_def by (rule wp_bindI [OF assms])

text \<open>A value that may be missing, then the rest of the function.\<close>

lemma wp_lift_bindI:
  assumes "\<And>e. r = Inl e \<Longrightarrow> E e s" and "\<And>x. r = Inr x \<Longrightarrow> wp d (f x) Q E s"
  shows "wp d (bind_py (lift_sum r) f) Q E s"
  using assms by (cases r) (simp_all add: wp_bind wp_lift_sum)

lemma wp_conj: "wp d m Q E s \<Longrightarrow> wp d m Q' E' s \<Longrightarrow>
    wp d m (\<lambda>x s'. Q x s' \<and> Q' x s') (\<lambda>e s'. E e s' \<and> E' e s') s"
  by (auto simp: wp_def split: option.splits sum.splits)

lemma wp_any: "(\<And>x s'. Q x s') \<Longrightarrow> (\<And>e s'. E e s') \<Longrightarrow> wp True m Q E s"
  by (auto simp: wp_def split: option.split sum.split)

lemma wp_partial: "wp False m Q E s \<Longrightarrow> wp True m Q E s"
  by (cases "m s") (auto simp: wp_def)

lemma wp_returnD: "wp d m Q E s \<Longrightarrow> m s = Some (Inr x, s') \<Longrightarrow> Q x s'"
  by (simp add: wp_def)

lemma wp_raiseD: "wp d m Q E s \<Longrightarrow> m s = Some (Inl e, s') \<Longrightarrow> E e s'"
  by (simp add: wp_def)

lemma wp_totalD: "wp False m Q E s \<Longrightarrow>
    (\<exists>x s'. m s = Some (Inr x, s') \<and> Q x s') \<or> (\<exists>e s'. m s = Some (Inl e, s') \<and> E e s')"
  by (cases "m s"; cases "fst (the (m s))") (auto simp: wp_def)

lemma wp_total_outcome: "wp False m Q E s \<Longrightarrow>
    \<exists>r s'. m s = Some (r, s') \<and> (case r of Inr x \<Rightarrow> Q x s' | Inl e \<Rightarrow> E e s')"
  by (auto simp: wp_def split: option.splits)

lemma wp_total_returns: "wp False m Q E s \<Longrightarrow> \<exists>r s'. m s = Some (r, s')"
  by (auto simp: wp_def split: option.splits)

text \<open>The invariant rule of the \<open>for\<close> loop: \<open>I\<close> is indexed by the items still to do.\<close>

lemma wp_for:
  assumes step: "\<And>x xs s. I (x # xs) s \<Longrightarrow> wp d (f x) (\<lambda>_. I xs) E s"
    and start: "I xs s"
  shows "wp d (for_py xs f) (\<lambda>_. I []) E s"
  using start
proof (induction xs arbitrary: s)
  case Nil
  then show ?case by (simp add: wp_rules)
next
  case (Cons x xs)
  from step [OF Cons.prems] have "wp d (f x) (\<lambda>_. wp d (for_py xs f) (\<lambda>_. I []) E) E s"
    by (rule wp_mono) (auto intro: Cons.IH)
  then show ?case by (simp add: wp_seq)
qed

text \<open>To run a closed computation: evaluate its outcome, name the state it leaves.\<close>

lemma run_outcome: "map_option fst x = Some r \<Longrightarrow> x = Some (r, snd (the x))"
  by (cases x) auto

lemma outcome_returns:
  assumes "\<exists>r s'. out = Some (r, s') \<and> (case r of Inr x \<Rightarrow> Q x s' | Inl e \<Rightarrow> E e s')"
    and "map_option fst out = Some (Inr x)"
  shows "\<exists>s'. out = Some (Inr x, s') \<and> Q x s'"
  using assms by auto

subsection \<open>Monotonicity, for loops that may not end\<close>

text \<open>
  \<open>partial_function (option)\<close> needs to know that the combinators are monotone in the
  computations they are given.
\<close>

lemma option_ord_cases: "option_ord a b \<longleftrightarrow> a = None \<or> a = b"
  by (auto simp: flat_ord_def)

lemma bind_py_mono [partial_function_mono]:
  assumes "mono_option (\<lambda>g. m g s)" and "\<And>x s'. mono_option (\<lambda>g. f x g s')"
  shows "mono_option (\<lambda>g. bind_py (m g) (\<lambda>x. f x g) s)"
proof -
  have "mono_option (\<lambda>g. case y of (r, s') \<Rightarrow>
      case r of Inl e \<Rightarrow> Some (Inl e, s') | Inr x \<Rightarrow> f x g s')" for y :: "(exn + 'c) \<times> 'd"
    by (cases y; cases "fst y") (auto intro: assms(2) option.const_mono)
  with assms(1) show ?thesis unfolding bind_py_def by (rule bind_mono)
qed

lemma if_py_mono [partial_function_mono]:
  assumes "mono_option (\<lambda>g. m g s)" and "mono_option (\<lambda>g. n g s)"
  shows "mono_option (\<lambda>g. (if b then m g else n g) s)"
  using assms by (cases b) simp_all

lemma seq_py_mono [partial_function_mono]:
  assumes "mono_option (\<lambda>g. m g s)" and "\<And>s'. mono_option (\<lambda>g. n g s')"
  shows "mono_option (\<lambda>g. seq_py (m g) (n g) s)"
  unfolding seq_py_def by (intro bind_py_mono assms)

lemma try_except_mono [partial_function_mono]:
  assumes "mono_option (\<lambda>g. m g s)" and "\<And>e s'. mono_option (\<lambda>g. h e g s')"
  shows "mono_option (\<lambda>g. try_except (m g) C (\<lambda>e. h e g) s)"
proof -
  have "mono_option (\<lambda>g. case y of (r, s') \<Rightarrow>
      case r of Inl e \<Rightarrow> (if C e then h e g s' else Some (Inl e, s')) | Inr x \<Rightarrow> Some (Inr x, s'))"
    for y :: "(exn + 'c) \<times> 'd"
    by (cases y; cases "fst y") (auto intro: assms(2) option.const_mono if_mono)
  with assms(1) show ?thesis unfolding try_except_def by (rule bind_mono)
qed

lemma case_sum_py_mono [partial_function_mono]:
  assumes "\<And>x. mono_option (\<lambda>g. m x g s)" and "\<And>y. mono_option (\<lambda>g. n y g s)"
  shows "mono_option (\<lambda>g. (case r of Inl x \<Rightarrow> m x g | Inr y \<Rightarrow> n y g) s)"
  using assms by (cases r) simp_all

subsection \<open>Loops\<close>

text \<open>
  The \<open>while\<close> loops of the sources. The body takes the loop's variables and says how the
  loop goes on: \<open>Inl\<close> with the new variables, or out with \<open>Inr\<close> (a \<open>break\<close>, a \<open>return\<close>, a false
  condition). A loop that is never left has no outcome.
\<close>

partial_function (option) loop_py :: "('a \<Rightarrow> ('s, 'a + 'b) py) \<Rightarrow> 'a \<Rightarrow> ('s, 'b) py" where
  [code]: "loop_py f x s =
     bind_py (f x) (\<lambda>r. case r of Inl x' \<Rightarrow> loop_py f x' | Inr y \<Rightarrow> return_py y) s"

lemma wp_loop_unfold: "wp d (loop_py f x) Q E s =
    wp d (f x) (\<lambda>r. case r of Inl x' \<Rightarrow> wp d (loop_py f x') Q E | Inr y \<Rightarrow> Q y) E s"
proof -
  have "wp d (loop_py f x) Q E s =
      wp d (bind_py (f x) (\<lambda>r. case r of Inl x' \<Rightarrow> loop_py f x' | Inr y \<Rightarrow> return_py y)) Q E s"
    by (simp add: wp_def loop_py.simps [of f x s])
  also have "\<dots> = wp d (f x) (\<lambda>r. case r of Inl x' \<Rightarrow> wp d (loop_py f x') Q E | Inr y \<Rightarrow> Q y) E s"
    unfolding wp_bind by (rule arg_cong [where f = "\<lambda>q. wp d (f x) q E s"])
      (auto simp: fun_eq_iff wp_return split: sum.split)
  finally show ?thesis .
qed

text \<open>Partial correctness, by an invariant of the variables and the state.\<close>

lemma wp_loop:
  assumes step: "\<And>x s. I x s \<Longrightarrow> wp True (f x) (\<lambda>r. case r of Inl x' \<Rightarrow> I x' | Inr y \<Rightarrow> Q y) E s"
    and start: "I x s"
  shows "wp True (loop_py f x) Q E s"
proof -
  let ?post = "\<lambda>(r, s'). case r of Inl e \<Rightarrow> E e s' | Inr y \<Rightarrow> Q y s'"
  have "f = f \<longrightarrow> I x s \<longrightarrow> ?post out" if "loop_py f x s = Some out" for out
  proof (rule loop_py.raw_induct [where P = "\<lambda>g x s out. g = f \<longrightarrow> I x s \<longrightarrow> ?post out"
        and xa = "((f, x), s)", unfolded prod.case, OF _ that], intro impI)
    fix loop g x s out
    assume IH: "\<And>g x s out. loop g x s = Some out \<Longrightarrow> g = f \<longrightarrow> I x s \<longrightarrow> ?post out"
      and run: "bind_py (g x) (\<lambda>r. case r of Inl x' \<Rightarrow> loop g x' | Inr y \<Rightarrow> return_py y) s = Some out"
      and "g = f" "I x s"
    with step [of x s] have "wp True (g x) (\<lambda>r. case r of Inl x' \<Rightarrow> I x' | Inr y \<Rightarrow> Q y) E s" by simp
    moreover from run obtain r t where "g x s = Some (r, t)"
      by (cases "g x s") (auto simp: bind_py_def)
    ultimately show "?post out" using run IH [of f _ t out] \<open>g = f\<close>
      by (cases r; cases "projr r") (auto simp: wp_def bind_py_def return_py_def)
  qed
  with start show ?thesis by (auto simp: wp_def split: option.splits sum.splits)
qed

text \<open>Total correctness, with a measure that every further round decreases.\<close>

lemma wp_loop_total:
  assumes step: "\<And>x s. I x s \<Longrightarrow> wp False (f x)
      (\<lambda>r s'. case r of Inl x' \<Rightarrow> I x' s' \<and> (\<mu> x' s' :: nat) < \<mu> x s | Inr y \<Rightarrow> Q y s') E s"
    and start: "I x s"
  shows "wp False (loop_py f x) Q E s"
  using start
proof (induction "\<mu> x s" arbitrary: x s rule: less_induct)
  case less
  show ?case
    by (subst wp_loop_unfold, rule wp_mono [OF step [OF less.prems]]) (use less.hyps in \<open>auto split: sum.splits\<close>)
qed

text \<open>\<open>while guard: body\<close>, and \<open>while True\<close> around a body that says whether it returns.\<close>

definition while_py :: "('s, bool) py \<Rightarrow> ('s, unit) py \<Rightarrow> ('s, unit) py" where
  "while_py guard body = loop_py (\<lambda>_ :: unit. bind_py guard (\<lambda>b.
     if b then seq_py body (return_py (Inl ())) else return_py (Inr ()))) ()"

definition until_py :: "('s, bool) py \<Rightarrow> ('s, unit) py" where
  "until_py body = loop_py (\<lambda>_ :: unit. bind_py body (\<lambda>ok. return_py (if ok then Inr () else Inl ()))) ()"

lemma wp_while:
  assumes guard: "\<And>s. I s \<Longrightarrow> wp True guard (\<lambda>b. if b then I' else Q) E s"
    and body: "\<And>s. I' s \<Longrightarrow> wp True body (\<lambda>_. I) E s"
    and start: "I s"
  shows "wp True (while_py guard body) (\<lambda>_. Q) E s"
  unfolding while_py_def
proof (rule wp_loop [where I = "\<lambda>_. I", OF _ start], unfold wp_bind, rule wp_mono [OF guard], assumption)
  fix b s'
  assume "(if b then I' else Q) s'"
  then show "wp True (if b then seq_py body (return_py (Inl ())) else return_py (Inr ()))
      (\<lambda>r. case r of Inl (_ :: unit) \<Rightarrow> I | Inr (_ :: unit) \<Rightarrow> Q) E s'"
    by (auto simp: wp_rules intro!: wp_mono [OF body])
qed simp

text \<open>How often the body of an \<open>until_py\<close> said \<open>False\<close>: the loop ends as its last round does.\<close>

primrec fails :: "('s, bool) py \<Rightarrow> nat \<Rightarrow> 's \<Rightarrow> 's \<Rightarrow> bool" where
  "fails m 0 s t \<longleftrightarrow> s = t"
| "fails m (Suc n) s t \<longleftrightarrow> (\<exists>u. m s = Some (Inr False, u) \<and> fails m n u t)"

lemma until_py_unfold: "until_py m s = (case m s of None \<Rightarrow> None
    | Some (r, s') \<Rightarrow> (case r of Inl e \<Rightarrow> Some (Inl e, s')
        | Inr ok \<Rightarrow> if ok then Some (Inr (), s') else until_py m s'))"
  unfolding until_py_def
  by (subst loop_py.simps) (auto simp: bind_py_def return_py_def split: option.splits sum.splits)

lemma until_py_fails: "fails m n s t \<Longrightarrow> until_py m s = until_py m t"
  by (induction n arbitrary: s) (auto simp: until_py_unfold [of m s for s])

lemma until_py_iff:
  "until_py m s = Some (r, s') \<longleftrightarrow>
     (\<exists>n t. fails m n s t \<and> (m t = Some (Inr True, s') \<and> r = Inr () \<or> (\<exists>e. m t = Some (Inl e, s') \<and> r = Inl e)))"
    (is "_ \<longleftrightarrow> ?ends s r s'")
proof
  assume run: "until_py m s = Some (r, s')"
  have "wp True (until_py m) (\<lambda>x s'. ?ends s (Inr x) s') (\<lambda>e s'. ?ends s (Inl e) s') s"
    unfolding until_py_def
  proof (rule wp_loop [where I = "\<lambda>_ t. \<exists>n. fails m n s t"])
    fix x t
    assume "\<exists>n. fails m n s t"
    then obtain n where n: "fails m n s t" by blast
    have snoc: "fails m (Suc n) s u" if "m t = Some (Inr False, u)" for u
      using n that by (induction n arbitrary: s) auto
    show "wp True (bind_py m (\<lambda>ok. return_py (if ok then Inr () else Inl ())))
        (\<lambda>r. case r of Inl (_ :: unit) \<Rightarrow> \<lambda>t. \<exists>n. fails m n s t | Inr y \<Rightarrow> \<lambda>s'. ?ends s (Inr y) s')
        (\<lambda>e s'. ?ends s (Inl e) s') t"
    proof (cases "m t")
      case (Some out)
      then show ?thesis
        using n snoc [of "snd out"] by (cases out; cases "fst out"; cases "projr (fst out)")
          (auto simp: wp_def bind_py_def return_py_def simp del: fails.simps(2))
    qed (simp add: wp_def bind_py_def)
  next
    show "\<exists>n. fails m n s s" by (rule exI [of _ 0]) simp
  qed
  with run show "?ends s r s'" by (auto simp: wp_def split: sum.splits)
next
  assume "?ends s r s'"
  then obtain n t where "fails m n s t"
    and "m t = Some (Inr True, s') \<and> r = Inr () \<or> (\<exists>e. m t = Some (Inl e, s') \<and> r = Inl e)" by blast
  then show "until_py m s = Some (r, s')"
    using until_py_fails [of m n s t] until_py_unfold [of m t] by auto
qed

subsection \<open>Lists\<close>

lemma take_eq_prefix: "take (length p) s = p \<longleftrightarrow> (\<exists>r. s = p @ r)"
  by (metis append_eq_conv_conj append_take_drop_id)

end
