(* ===== verification/PyStrings.thy ===== *)
theory PyStrings
  imports Prelude
begin

text \<open>
  The Python string operations the sources use. A Python \<open>str\<close> is represented by its UTF-8
  bytes (one \<open>char\<close> per byte, lone surrogates in the three-byte form): the operations used
  on paths (comparison, \<open>startswith\<close>, \<open>endswith\<close>, splitting at an ASCII separator, slicing
  off an ASCII-delimited prefix, code-point order) give the same result on this encoding as
  on code points.
\<close>

subsection \<open>Operations\<close>

definition startswith :: "string \<Rightarrow> string \<Rightarrow> bool" where
  "startswith s p \<longleftrightarrow> take (length p) s = p"

definition endswith :: "string \<Rightarrow> string \<Rightarrow> bool" where
  "endswith s p \<longleftrightarrow> length p \<le> length s \<and> drop (length s - length p) s = p"

text \<open>\<open>s.split(c)\<close> for a one-character separator.\<close>

fun split_on :: "char \<Rightarrow> string \<Rightarrow> string list" where
  "split_on c [] = [[]]"
| "split_on c (x # xs) =
     (if x = c then [] # split_on c xs
      else case split_on c xs of [] \<Rightarrow> [[x]] | y # ys \<Rightarrow> (x # y) # ys)"

text \<open>\<open>c.join(parts)\<close>.\<close>

fun join_on :: "char \<Rightarrow> string list \<Rightarrow> string" where
  "join_on c [] = []"
| "join_on c [x] = x"
| "join_on c (x # y # ys) = x @ c # join_on c (y # ys)"

text \<open>\<open>xs[:n]\<close>: a negative bound counts from the end.\<close>

definition slice_to :: "int \<Rightarrow> 'a list \<Rightarrow> 'a list" where
  "slice_to n xs = (if 0 \<le> n then take (nat n) xs else take (nat (int (length xs) + n)) xs)"

text \<open>\<open>s.rfind(sep)\<close> and \<open>s.rsplit(sep, 1)[0]\<close>.\<close>

fun rfind_from :: "string \<Rightarrow> string \<Rightarrow> nat \<Rightarrow> nat option" where
  "rfind_from sep s 0 = (if startswith s sep then Some 0 else None)"
| "rfind_from sep s (Suc i) =
     (if startswith (drop (Suc i) s) sep then Some (Suc i) else rfind_from sep s i)"

definition rfind :: "string \<Rightarrow> string \<Rightarrow> nat option" where
  "rfind sep s = rfind_from sep s (length s)"

definition rsplit1_head :: "string \<Rightarrow> string \<Rightarrow> string" where
  "rsplit1_head sep s = (case rfind sep s of None \<Rightarrow> s | Some i \<Rightarrow> take i s)"

text \<open>\<open>str(n)\<close> for integers.\<close>

definition digit_char :: "nat \<Rightarrow> char" where
  "digit_char d = char_of (48 + d)"

fun show_nat :: "nat \<Rightarrow> string" where
  "show_nat n = (if n < 10 then [digit_char n] else show_nat (n div 10) @ [digit_char (n mod 10)])"

declare show_nat.simps [simp del]

definition show_int :: "int \<Rightarrow> string" where
  "show_int n = (if n < 0 then CHR ''-'' # show_nat (nat (- n)) else show_nat (nat n))"

subsection \<open>Prefixes and suffixes\<close>

lemma startswith_iff: "startswith s p \<longleftrightarrow> (\<exists>r. s = p @ r)"
  by (simp add: startswith_def take_eq_prefix)

lemma endswith_iff: "endswith s p \<longleftrightarrow> (\<exists>r. s = r @ p)"
  unfolding endswith_def by (metis append_eq_conv_conj append_take_drop_id diff_add_inverse2
      le_add2 length_append length_drop diff_diff_cancel)

lemma rfind_from_SomeD: "rfind_from sep s n = Some i \<Longrightarrow> i \<le> n \<and> startswith (drop i s) sep"
  by (induction n) (auto split: if_splits)

lemma rfind_suffix:
  assumes "sep \<noteq> []"
  shows "rfind sep (r @ sep) = Some (length r)"
proof -
  have "rfind_from sep (r @ sep) (length r + k) = Some (length r)" if "k \<le> length sep" for k
    using that
  proof (induction k)
    case 0
    show ?case by (cases "length r") (simp_all add: startswith_iff)
  next
    case (Suc k)
    have "\<not> startswith (drop (Suc (length r + k)) (r @ sep)) sep"
    proof
      assume "startswith (drop (Suc (length r + k)) (r @ sep)) sep"
      then obtain t where "drop (Suc (length r + k)) (r @ sep) = sep @ t"
        by (auto simp: startswith_iff)
      then have "length sep - Suc k = length sep + length t"
        by (auto dest: arg_cong [where f = length])
      with assms show False by (cases sep) auto
    qed
    with Suc show ?case by simp
  qed
  from this [of "length sep"] show ?thesis by (simp add: rfind_def)
qed

lemma rsplit1_head_suffix [simp]: "sep \<noteq> [] \<Longrightarrow> rsplit1_head sep (r @ sep) = r"
  by (simp add: rsplit1_head_def rfind_suffix)

subsection \<open>Splitting and joining\<close>

lemma split_on_nonempty [simp]: "split_on c s \<noteq> []"
  by (cases s) (auto split: list.split)

lemma join_split [simp]: "join_on c (split_on c s) = s"
proof (induction s)
  case (Cons x xs)
  obtain y ys where "split_on c xs = y # ys" by (cases "split_on c xs") auto
  with Cons show ?case by (cases ys) auto
qed simp

lemma split_on_no_sep: "p \<in> set (split_on c s) \<Longrightarrow> c \<notin> set p"
proof (induction s arbitrary: p)
  case (Cons x xs)
  obtain y ys where "split_on c xs = y # ys" by (cases "split_on c xs") auto
  with Cons show ?case by (auto split: if_splits)
qed simp

lemma length_split_on: "length (split_on c s) = Suc (count_list s c)"
proof (induction s)
  case (Cons x xs)
  obtain y ys where "split_on c xs = y # ys" by (cases "split_on c xs") auto
  with Cons show ?case by auto
qed simp

lemma split_on_append_sep: "split_on c (s @ c # t) = split_on c s @ split_on c t"
proof (induction s)
  case (Cons x xs)
  obtain y ys where "split_on c xs = y # ys" by (cases "split_on c xs") auto
  with Cons show ?case by auto
qed simp

lemma split_on_free: "c \<notin> set s \<Longrightarrow> split_on c s = [s]"
  by (induction s) auto

lemma split_join: "ps \<noteq> [] \<Longrightarrow> (\<And>p. p \<in> set ps \<Longrightarrow> c \<notin> set p) \<Longrightarrow> split_on c (join_on c ps) = ps"
  by (induction c ps rule: join_on.induct) (auto simp: split_on_append_sep split_on_free)

lemma join_append: "ps \<noteq> [] \<Longrightarrow> qs \<noteq> [] \<Longrightarrow> join_on c (ps @ qs) = join_on c ps @ c # join_on c qs"
  by (induction c ps rule: join_on.induct) (auto simp: neq_Nil_conv)

lemma count_join: "ps \<noteq> [] \<Longrightarrow> (\<And>p. p \<in> set ps \<Longrightarrow> c \<notin> set p) \<Longrightarrow>
    count_list (join_on c ps) c = length ps - 1"
  by (induction c ps rule: join_on.induct) (auto simp: count_notin)

text \<open>Lines that contain the separator are split further; the others survive.\<close>

lemma split_join_concat: "ps \<noteq> [] \<Longrightarrow> split_on c (join_on c ps) = concat (map (split_on c) ps)"
  by (induction c ps rule: join_on.induct) (auto simp: split_on_append_sep)

lemma split_join_mem: "p \<in> set ps \<Longrightarrow> c \<notin> set p \<Longrightarrow> p \<in> set (split_on c (join_on c ps))"
  by (subst split_join_concat) (force simp: split_on_free)+

end
