(* ===== verification/RepoId.thy ===== *)
theory RepoId
  imports PyStrings
begin

text \<open>
  Repository naming: \<open>get_repo_id\<close> of \<open>backup/backup.py\<close> and its copy in \<open>backup/cli.py\<close>
  (which repository a path belongs to), \<open>repo_url\<close> (the restic URL of a repository) and the
  repository discovery of \<open>cli.list_repos\<close> and \<open>prune.prune_all_repos\<close> (which
  repositories a bucket holds).
\<close>

subsection \<open>Definitions\<close>

definition get_repo_id :: "string \<Rightarrow> string \<Rightarrow> int \<Rightarrow> string option" where
  "get_repo_id path base depth =
     (if \<not> startswith path (base @ ''/'') then None
      else let rel = drop (length base + 1) path;
               parts = split_on (CHR ''/'') rel
           in if int (length parts) < depth then None
              else Some (join_on (CHR ''/'') (slice_to depth parts)))"

text \<open>The copy in \<open>backup/cli.py\<close>, used by \<open>snapshots\<close> and \<open>restore\<close>.\<close>

definition cli_get_repo_id :: "string \<Rightarrow> string \<Rightarrow> int \<Rightarrow> string option" where
  "cli_get_repo_id path base depth =
     (if \<not> startswith path (base @ ''/'') then None
      else let rel = drop (length base + 1) path;
               parts = split_on (CHR ''/'') rel
           in if int (length parts) < depth then None
              else Some (join_on (CHR ''/'') (slice_to depth parts)))"

text \<open>
  The body of the discovery loop: a set collects the prefix of every object whose name ends
  in \<open>/config\<close>. The set is kept as the list of its elements in order of insertion.
\<close>

definition add_repo :: "string list \<Rightarrow> string \<Rightarrow> string list" where
  "add_repo repos object_name =
     (if endswith object_name ''/config''
      then let repo_prefix = rsplit1_head ''/config'' object_name
           in if repo_prefix \<noteq> [] then List.insert repo_prefix repos else repos
      else repos)"

definition discover_repos :: "string list \<Rightarrow> string list" where
  "discover_repos objects = sort (foldl add_repo [] objects)"

subsection \<open>The contract of a path-to-repository mapping\<close>

text \<open>
  What the callers rely on: for a positive depth, the id is a leading part of the path below
  the base, it ends at a component boundary and has as many components as the depth says,
  and every such part is found.
\<close>

definition repo_part :: "string \<Rightarrow> string \<Rightarrow> int \<Rightarrow> string \<Rightarrow> bool" where
  "repo_part path base depth rid \<longleftrightarrow>
     (\<exists>rest. path = base @ ''/'' @ rid @ rest \<and> (rest = [] \<or> hd rest = CHR ''/'') \<and>
             int (count_list rid (CHR ''/'')) = depth - 1)"

locale repo_mapper =
  fixes repo_of :: "string \<Rightarrow> string \<Rightarrow> int \<Rightarrow> string option"
  assumes repo_of_iff: "1 \<le> depth \<Longrightarrow> repo_of path base depth = Some rid \<longleftrightarrow> repo_part path base depth rid"
begin

lemma repo_root_in_itself:
  assumes "1 \<le> depth" and "repo_of path base depth = Some rid"
  shows "repo_of (base @ ''/'' @ rid) base depth = Some rid"
  using assms by (auto simp: repo_of_iff repo_part_def)

lemma below_in_same_repo:
  assumes "1 \<le> depth" and "repo_of path base depth = Some rid"
  shows "repo_of (base @ ''/'' @ rid @ ''/'' @ below) base depth = Some rid"
  using assms by (fastforce simp: repo_of_iff repo_part_def)

lemma no_repo_outside_base:
  assumes "1 \<le> depth" and "\<not> startswith path (base @ ''/'')"
  shows "repo_of path base depth = None"
proof (rule ccontr)
  assume "repo_of path base depth \<noteq> None"
  with assms(1) obtain rid where "repo_part path base depth rid"
    by (auto simp: repo_of_iff)
  with assms(2) show False by (auto simp: repo_part_def startswith_iff)
qed

end

subsection \<open>The code meets the contract\<close>

lemma slice_to_pos: "1 \<le> d \<Longrightarrow> slice_to d xs = take (nat d) xs"
  by (simp add: slice_to_def)

lemma take_parts_unique:
  assumes "rid @ rest = join_on c parts" and "\<And>p. p \<in> set parts \<Longrightarrow> c \<notin> set p"
    and "parts \<noteq> []" and "rest = [] \<or> hd rest = c"
  shows "rid = join_on c (take (Suc (count_list rid c)) parts)"
proof -
  have parts: "parts = split_on c (rid @ rest)"
    using assms(1-3) by (simp add: split_join)
  have "take (Suc (count_list rid c)) parts = split_on c rid"
  proof (cases rest)
    case Nil
    with parts show ?thesis by (simp add: length_split_on)
  next
    case (Cons x xs)
    with assms(4) have "parts = split_on c rid @ split_on c xs"
      by (simp add: parts split_on_append_sep)
    then show ?thesis by (simp add: length_split_on [symmetric])
  qed
  then show ?thesis by simp
qed

lemma take_parts_part:
  assumes parts: "parts = split_on c rel" and "0 < n" and "n \<le> length parts"
  shows "\<exists>rest. rel = join_on c (take n parts) @ rest \<and> (rest = [] \<or> hd rest = c)"
    and "count_list (join_on c (take n parts)) c = n - 1"
proof -
  have ne: "take n parts \<noteq> []" using assms by auto
  have free: "c \<notin> set p" if "p \<in> set (take n parts)" for p
    using that parts by (auto dest: in_set_takeD split_on_no_sep)
  show "count_list (join_on c (take n parts)) c = n - 1"
    using assms(3) count_join [OF ne free] by simp
  show "\<exists>rest. rel = join_on c (take n parts) @ rest \<and> (rest = [] \<or> hd rest = c)"
  proof (cases "drop n parts = []")
    case True
    then have "take n parts = parts" by simp
    then show ?thesis using parts by simp
  next
    case False
    have "rel = join_on c (take n parts @ drop n parts)"
      using parts by (simp del: append_take_drop_id add: append_take_drop_id)
    also have "\<dots> = join_on c (take n parts) @ c # join_on c (drop n parts)"
      using ne False by (rule join_append)
    finally show ?thesis by auto
  qed
qed

lemma get_repo_id_iff:
  assumes "1 \<le> depth"
  shows "get_repo_id path base depth = Some rid \<longleftrightarrow> repo_part path base depth rid"
proof
  let ?c = "CHR ''/''"
  assume got: "get_repo_id path base depth = Some rid"
  then obtain rel where path: "path = base @ ''/'' @ rel"
    by (auto simp: get_repo_id_def startswith_iff split: if_splits)
  define parts where "parts = split_on ?c rel"
  from got path have len: "depth \<le> int (length parts)" and rid: "rid = join_on ?c (take (nat depth) parts)"
    using assms by (auto simp: get_repo_id_def startswith_iff parts_def slice_to_pos Let_def split: if_splits)
  from take_parts_part [OF parts_def, of "nat depth"] len assms path rid
  show "repo_part path base depth rid"
    by (auto simp: repo_part_def)
next
  let ?c = "CHR ''/''"
  assume "repo_part path base depth rid"
  then obtain rest where path: "path = base @ ''/'' @ rid @ rest" and rest: "rest = [] \<or> hd rest = ?c"
    and cnt: "int (count_list rid ?c) = depth - 1"
    by (auto simp: repo_part_def)
  define parts where "parts = split_on ?c (rid @ rest)"
  have "rid = join_on ?c (take (Suc (count_list rid ?c)) parts)"
    by (rule take_parts_unique) (use rest in \<open>auto simp: parts_def dest: split_on_no_sep\<close>)
  moreover have "Suc (count_list rid ?c) = nat depth" using cnt by linarith
  moreover have "depth \<le> int (length parts)"
    using cnt by (simp add: parts_def length_split_on)
  moreover have "get_repo_id path base depth = Some (join_on ?c (take (nat depth) parts))"
    if "depth \<le> int (length parts)"
    using assms path that
    by (simp add: get_repo_id_def startswith_iff Let_def slice_to_pos parts_def)
  ultimately show "get_repo_id path base depth = Some rid" by metis
qed

lemma cli_get_repo_id_eq: "cli_get_repo_id = get_repo_id"
  by (simp add: fun_eq_iff cli_get_repo_id_def get_repo_id_def)

interpretation backup_repo_mapper: repo_mapper get_repo_id
  by unfold_locales (rule get_repo_id_iff)

interpretation cli_repo_mapper: repo_mapper cli_get_repo_id
  by unfold_locales (simp add: cli_get_repo_id_eq get_repo_id_iff)

subsection \<open>Discovery\<close>

lemma set_add_repo:
  "set (add_repo repos obj) = set repos \<union> {rid. rid \<noteq> [] \<and> obj = rid @ ''/config''}"
  by (auto simp: add_repo_def endswith_iff Let_def)

lemma set_discover: "set (foldl add_repo repos objects) =
    set repos \<union> {rid. rid \<noteq> [] \<and> rid @ ''/config'' \<in> set objects}"
  by (induction objects arbitrary: repos) (auto simp: set_add_repo)

lemma distinct_discover: "distinct repos \<Longrightarrow> distinct (foldl add_repo repos objects)"
  by (induction objects arbitrary: repos) (auto simp: add_repo_def Let_def)

subsection \<open>Properties\<close>

text \<open>
  C39: for a positive depth, \<open>get_repo_id\<close> gives an id exactly when the path lies below the base
  and has that many components there; the id is these components, so the path is the base,
  a slash, the id, and nothing more or a slash and the rest. Every path below the root of a
  repository is mapped to the same repository.
\<close>

theorem get_repo_id_spec:
  assumes "1 \<le> depth"
  shows "(get_repo_id path base depth = Some rid \<longleftrightarrow>
      (\<exists>rest. path = base @ ''/'' @ rid @ rest \<and> (rest = [] \<or> hd rest = CHR ''/'') \<and>
              int (count_list rid (CHR ''/'')) = depth - 1)) \<and>
    (get_repo_id path base depth = Some rid \<longrightarrow>
      get_repo_id (base @ ''/'' @ rid @ ''/'' @ below) base depth = Some rid)"
  using backup_repo_mapper.repo_of_iff [OF assms] backup_repo_mapper.below_in_same_repo [OF assms]
  by (auto simp: repo_part_def)

theorem get_repo_id_spec_witness:
  "get_repo_id ''/home/stor1/userA/doc/a.txt'' ''/home'' 2 = Some ''stor1/userA'' \<and>
   get_repo_id ''/home/stor1/userA/b'' ''/home'' 2 = Some ''stor1/userA''"
proof -
  have "int (count_list ''stor1/userA'' (CHR ''/'')) = 2 - 1" by code_simp
  with get_repo_id_spec [of 2 "''/home/stor1/userA/doc/a.txt''" "''/home''" "''stor1/userA''" "''b''"]
  show ?thesis by simp
qed

text \<open>
  C40: discovery finds exactly the non-empty prefixes of the objects named \<open>config\<close>, each once,
  in ascending order.
\<close>

theorem discover_repos_exact:
  "set (discover_repos objects) = {rid. rid \<noteq> [] \<and> rid @ ''/config'' \<in> set objects} \<and>
   distinct (discover_repos objects) \<and> sorted (discover_repos objects)"
  by (simp add: discover_repos_def set_discover distinct_discover)

end
