(* ===== verification/PyConfig.thy ===== *)
theory PyConfig
  imports RepoId
begin

text \<open>
  The configuration dictionary (\<open>toml.load\<close> gives it: tables of leaves that are strings,
  integers or booleans), the process environment handed to restic, and the values the three
  backup programs derive from them: the restic URL of a repository, the restic binary, the
  credentials. A missing table or key raises \<open>KeyError\<close> where the source subscripts and takes
  the default where it calls \<open>get\<close>.
\<close>

subsection \<open>Dictionaries\<close>

datatype cfgval = CStr string | CInt int | CBool bool

type_synonym config = "string \<rightharpoonup> (string \<rightharpoonup> cfgval)"
type_synonym environ = "string \<rightharpoonup> cfgval"

fun truthy_cfg :: "cfgval \<Rightarrow> bool" where
  "truthy_cfg (CStr s) = (s \<noteq> [])"
| "truthy_cfg (CInt n) = (n \<noteq> 0)"
| "truthy_cfg (CBool b) = b"

text \<open>\<open>str(v)\<close>, as an f-string formats it.\<close>

fun str_cfg :: "cfgval \<Rightarrow> string" where
  "str_cfg (CStr s) = s"
| "str_cfg (CInt n) = show_int n"
| "str_cfg (CBool b) = (if b then ''True'' else ''False'')"

text \<open>\<open>cfg[table][key]\<close>, \<open>cfg[table].get(key, default)\<close> and \<open>cfg.get(table, {}).get(key, default)\<close>.\<close>

definition cfg_item :: "config \<Rightarrow> string \<Rightarrow> string \<Rightarrow> exn + cfgval" where
  "cfg_item cfg table key =
     (case cfg table of None \<Rightarrow> Inl (KeyError table)
      | Some t \<Rightarrow> (case t key of None \<Rightarrow> Inl (KeyError key) | Some v \<Rightarrow> Inr v))"

definition cfg_get :: "config \<Rightarrow> string \<Rightarrow> string \<Rightarrow> cfgval \<Rightarrow> exn + cfgval" where
  "cfg_get cfg table key dflt =
     (case cfg table of None \<Rightarrow> Inl (KeyError table)
      | Some t \<Rightarrow> Inr (case t key of None \<Rightarrow> dflt | Some v \<Rightarrow> v))"

definition cfg_get_get :: "config \<Rightarrow> string \<Rightarrow> string \<Rightarrow> cfgval \<Rightarrow> cfgval" where
  "cfg_get_get cfg table key dflt =
     (case cfg table of None \<Rightarrow> dflt | Some t \<Rightarrow> (case t key of None \<Rightarrow> dflt | Some v \<Rightarrow> v))"

subsection \<open>Repository URL and binary\<close>

definition url_of :: "cfgval \<Rightarrow> cfgval \<Rightarrow> cfgval \<Rightarrow> string \<Rightarrow> string" where
  "url_of use_tls endpoint bucket repo_id =
     (let scheme = if truthy_cfg use_tls then ''https'' else ''http''
      in ''s3:'' @ scheme @ ''://'' @ str_cfg endpoint @ ''/'' @ str_cfg bucket @ ''/'' @ repo_id)"

definition repo_url :: "config \<Rightarrow> string \<Rightarrow> exn + string" where
  "repo_url cfg repo_id =
     bind_sum (cfg_item cfg ''minio'' ''endpoint'') (\<lambda>endpoint.
     bind_sum (cfg_item cfg ''minio'' ''bucket'') (\<lambda>bucket.
     bind_sum (cfg_get cfg ''minio'' ''use_tls'' (CBool False)) (\<lambda>use_tls.
     Inr (url_of use_tls endpoint bucket repo_id))))"

definition restic_bin :: "config \<Rightarrow> exn + cfgval" where
  "restic_bin cfg = cfg_get cfg ''backup'' ''restic_binary'' (CStr ''restic'')"

subsection \<open>Credentials\<close>

text \<open>One \<open>if NAME not in env: env[NAME] = cfg[table].get(key, "")\<close>.\<close>

definition env_default :: "config \<Rightarrow> string \<Rightarrow> string \<Rightarrow> string \<Rightarrow> environ \<Rightarrow> exn + environ" where
  "env_default cfg name table key env =
     (if env name = None
      then bind_sum (cfg_get cfg table key (CStr [])) (\<lambda>v. Inr (env(name \<mapsto> v)))
      else Inr env)"

text \<open>\<open>cli.restic_env\<close>, and the same statements in \<open>backup._run_backup_inner\<close>.\<close>

definition restic_env :: "config \<Rightarrow> environ \<Rightarrow> exn + environ" where
  "restic_env cfg environ =
     bind_sum (env_default cfg ''RESTIC_PASSWORD'' ''backup'' ''restic_password'' environ) (\<lambda>env.
     bind_sum (env_default cfg ''AWS_ACCESS_KEY_ID'' ''minio'' ''access_key'' env) (\<lambda>env.
     env_default cfg ''AWS_SECRET_ACCESS_KEY'' ''minio'' ''secret_key'' env))"

text \<open>\<open>prune.restic_env\<close>: no fallback, the first missing name raises.\<close>

primrec require_env :: "string list \<Rightarrow> environ \<Rightarrow> exn + environ" where
  "require_env [] env = Inr env"
| "require_env (key # keys) env =
     (if env key = None then Inl (RuntimeError key) else require_env keys env)"

definition prune_restic_env :: "environ \<Rightarrow> exn + environ" where
  "prune_restic_env environ =
     require_env [''RESTIC_PASSWORD'', ''AWS_ACCESS_KEY_ID'', ''AWS_SECRET_ACCESS_KEY''] environ"

subsection \<open>Facts\<close>

lemma url_of_inj: "url_of tls ep b r1 = url_of tls ep b r2 \<Longrightarrow> r1 = r2"
  by (simp add: url_of_def Let_def)

lemma repo_url_Inr_iff: "(\<exists>url. repo_url cfg rid = Inr url) \<longleftrightarrow>
    (\<exists>t. cfg ''minio'' = Some t \<and> t ''endpoint'' \<noteq> None \<and> t ''bucket'' \<noteq> None)"
  by (auto simp: repo_url_def cfg_item_def cfg_get_def split: option.splits)

lemma repo_url_inj: "repo_url cfg r1 = Inr u \<Longrightarrow> repo_url cfg r2 = Inr u \<Longrightarrow> r1 = r2"
  by (auto simp: repo_url_def bind_sum_Inr dest: url_of_inj)

lemma env_default_Inr:
  assumes "env_default cfg name table key env = Inr env'"
  shows "env \<subseteq>\<^sub>m env'" and "env' name \<noteq> None"
  using assms by (auto simp: env_default_def bind_sum_Inr map_le_def split: if_splits)

lemma restic_env_Inr:
  assumes "restic_env cfg env = Inr env'"
  shows "env \<subseteq>\<^sub>m env'"
    and "{''RESTIC_PASSWORD'', ''AWS_ACCESS_KEY_ID'', ''AWS_SECRET_ACCESS_KEY''} \<subseteq> dom env'"
proof -
  from assms obtain e1 e2 where
    1: "env_default cfg ''RESTIC_PASSWORD'' ''backup'' ''restic_password'' env = Inr e1" and
    2: "env_default cfg ''AWS_ACCESS_KEY_ID'' ''minio'' ''access_key'' e1 = Inr e2" and
    3: "env_default cfg ''AWS_SECRET_ACCESS_KEY'' ''minio'' ''secret_key'' e2 = Inr env'"
    by (auto simp: restic_env_def bind_sum_Inr)
  note le = env_default_Inr(1) [OF 1] env_default_Inr(1) [OF 2] env_default_Inr(1) [OF 3]
  show "env \<subseteq>\<^sub>m env'" using le by (blast intro: map_le_trans)
  from le env_default_Inr(2) [OF 1] env_default_Inr(2) [OF 2] env_default_Inr(2) [OF 3]
  show "{''RESTIC_PASSWORD'', ''AWS_ACCESS_KEY_ID'', ''AWS_SECRET_ACCESS_KEY''} \<subseteq> dom env'"
    by (auto simp: map_le_def dom_def)
qed

lemma require_env_iff: "require_env keys env = Inr env' \<longleftrightarrow> env' = env \<and> set keys \<subseteq> dom env"
  by (induction keys) auto

end
