(* ===== verification/PyJson.thy ===== *)
theory PyJson
  imports PyStrings
begin

text \<open>
  \<open>json.loads\<close> of the Python standard library on a byte string, as the consumer calls it on a
  Kafka message: detection of the encoding, decoding (error handler \<open>surrogatepass\<close>), and the
  scanner with its exact grammar. A decoding failure is \<open>UnicodeDecodeError\<close>, which is not a
  \<open>JSONDecodeError\<close>; a syntax error is \<open>JSONDecodeError\<close>; an integer literal of more than
  4300 digits is \<open>ValueError\<close>. A float is kept as its literal.

  The scanner recurses on a fuel argument; \<open>json_loads\<close> gives it more than two units per
  character (a scanner call that consumes nothing is followed by one that does) and \<open>json_loads_total\<close> shows that it never runs out. The interpreter's own
  recursion limit is not modelled.
\<close>

subsection \<open>Values\<close>

datatype json =
    JNull
  | JBool bool
  | JInt int
  | JFloat string
  | JStr string
  | JArr "json list"
  | JObj "(string \<times> json) list"

abbreviation ord_of :: "char \<Rightarrow> nat" where
  "ord_of c \<equiv> of_char c"

subsection \<open>UTF-8, UTF-16 and UTF-32\<close>

definition cont_byte :: "char \<Rightarrow> bool" where
  "cont_byte c \<longleftrightarrow> 0x80 \<le> ord_of c \<and> ord_of c \<le> 0xBF"

text \<open>
  Well-formed UTF-8. With \<open>sp\<close> the three-byte form of a surrogate is let through, as the
  handler \<open>surrogatepass\<close> does; without it the encoding is strict.
\<close>

fun utf8_ok :: "bool \<Rightarrow> string \<Rightarrow> bool" where
  "utf8_ok sp [] = True"
| "utf8_ok sp (a # s) =
     (let x = ord_of a in
      if x < 0x80 then utf8_ok sp s
      else if x < 0xC2 then False
      else if x \<le> 0xDF then
        (case s of b # t \<Rightarrow> cont_byte b \<and> utf8_ok sp t | _ \<Rightarrow> False)
      else if x \<le> 0xEF then
        (case s of b # c # t \<Rightarrow>
           cont_byte b \<and> cont_byte c \<and> (x = 0xE0 \<longrightarrow> 0xA0 \<le> ord_of b) \<and>
           (x = 0xED \<and> \<not> sp \<longrightarrow> ord_of b \<le> 0x9F) \<and> utf8_ok sp t
         | _ \<Rightarrow> False)
      else if x \<le> 0xF4 then
        (case s of b # c # d # t \<Rightarrow>
           cont_byte b \<and> cont_byte c \<and> cont_byte d \<and> (x = 0xF0 \<longrightarrow> 0x90 \<le> ord_of b) \<and>
           (x = 0xF4 \<longrightarrow> ord_of b \<le> 0x8F) \<and> utf8_ok sp t
         | _ \<Rightarrow> False)
      else False)"

text \<open>The UTF-8 bytes of a code point (surrogates included).\<close>

definition encode_cp :: "nat \<Rightarrow> string" where
  "encode_cp n =
     (if n < 0x80 then [char_of n]
      else if n < 0x800 then [char_of (0xC0 + n div 64), char_of (0x80 + n mod 64)]
      else if n < 0x10000 then
        [char_of (0xE0 + n div 4096), char_of (0x80 + n div 64 mod 64), char_of (0x80 + n mod 64)]
      else [char_of (0xF0 + n div 262144), char_of (0x80 + n div 4096 mod 64),
            char_of (0x80 + n div 64 mod 64), char_of (0x80 + n mod 64)])"

definition is_high :: "nat \<Rightarrow> bool" where
  "is_high n \<longleftrightarrow> 0xD800 \<le> n \<and> n \<le> 0xDBFF"

definition is_low :: "nat \<Rightarrow> bool" where
  "is_low n \<longleftrightarrow> 0xDC00 \<le> n \<and> n \<le> 0xDFFF"

definition join_surrogates :: "nat \<Rightarrow> nat \<Rightarrow> nat" where
  "join_surrogates h l = 0x10000 + (h - 0xD800) * 1024 + (l - 0xDC00)"

fun units16 :: "bool \<Rightarrow> string \<Rightarrow> nat list option" where
  "units16 be [] = Some []"
| "units16 be [a] = None"
| "units16 be (a # b # s) = map_option
     (\<lambda>us. (if be then ord_of a * 256 + ord_of b else ord_of b * 256 + ord_of a) # us) (units16 be s)"

fun units32 :: "bool \<Rightarrow> string \<Rightarrow> nat list option" where
  "units32 be [] = Some []"
| "units32 be (a # b # c # d # s) =
     (let u = (if be then ((ord_of a * 256 + ord_of b) * 256 + ord_of c) * 256 + ord_of d
                else ((ord_of d * 256 + ord_of c) * 256 + ord_of b) * 256 + ord_of a)
      in if u \<le> 0x10FFFF then map_option ((#) u) (units32 be s) else None)"
| "units32 be _ = None"

fun join16 :: "nat list \<Rightarrow> nat list" where
  "join16 [] = []"
| "join16 [u] = [u]"
| "join16 (u # v # us) =
     (if is_high u \<and> is_low v then join_surrogates u v # join16 us else u # join16 (v # us))"

datatype encoding = UTF8 | UTF8_sig | UTF16 | UTF16_be | UTF16_le | UTF32 | UTF32_be | UTF32_le

definition bytes_of :: "nat list \<Rightarrow> string" where
  "bytes_of ns = map char_of ns"

definition detect_encoding :: "string \<Rightarrow> encoding" where
  "detect_encoding b =
     (let z = (\<lambda>i. ord_of (b ! i) = 0) in
      if startswith b (bytes_of [0, 0, 0xFE, 0xFF]) \<or> startswith b (bytes_of [0xFF, 0xFE, 0, 0]) then UTF32
      else if startswith b (bytes_of [0xFE, 0xFF]) \<or> startswith b (bytes_of [0xFF, 0xFE]) then UTF16
      else if startswith b (bytes_of [0xEF, 0xBB, 0xBF]) then UTF8_sig
      else if 4 \<le> length b then
        (if z 0 then (if z 1 then UTF32_be else UTF16_be)
         else if z 1 then (if z 2 \<and> z 3 then UTF32_le else UTF16_le)
         else UTF8)
      else if length b = 2 then
        (if z 0 then UTF16_be else if z 1 then UTF16_le else UTF8)
      else UTF8)"

definition decode16 :: "bool \<Rightarrow> string \<Rightarrow> string option" where
  "decode16 be b = map_option (\<lambda>us. concat (map encode_cp (join16 us))) (units16 be b)"

definition decode32 :: "bool \<Rightarrow> string \<Rightarrow> string option" where
  "decode32 be b = map_option (\<lambda>us. concat (map encode_cp us)) (units32 be b)"

definition decode_bytes :: "string \<Rightarrow> string option" where
  "decode_bytes b = (case detect_encoding b of
     UTF8 \<Rightarrow> (if utf8_ok True b then Some b else None)
   | UTF8_sig \<Rightarrow> (if utf8_ok True (drop 3 b) then Some (drop 3 b) else None)
   | UTF16 \<Rightarrow> decode16 (startswith b (bytes_of [0xFE, 0xFF])) (drop 2 b)
   | UTF16_be \<Rightarrow> decode16 True b
   | UTF16_le \<Rightarrow> decode16 False b
   | UTF32 \<Rightarrow> decode32 (startswith b (bytes_of [0, 0, 0xFE, 0xFF])) (drop 4 b)
   | UTF32_be \<Rightarrow> decode32 True b
   | UTF32_le \<Rightarrow> decode32 False b)"

subsection \<open>The scanner\<close>

definition skip_ws :: "string \<Rightarrow> string" where
  "skip_ws s = dropWhile (\<lambda>c. c = CHR '' '' \<or> ord_of c = 9 \<or> ord_of c = 10 \<or> ord_of c = 13) s"

definition hex_digit :: "char \<Rightarrow> nat option" where
  "hex_digit c = (let n = ord_of c in
     if 48 \<le> n \<and> n \<le> 57 then Some (n - 48)
     else if 97 \<le> n \<and> n \<le> 102 then Some (n - 87)
     else if 65 \<le> n \<and> n \<le> 70 then Some (n - 55)
     else None)"

definition hex4 :: "char \<Rightarrow> char \<Rightarrow> char \<Rightarrow> char \<Rightarrow> nat option" where
  "hex4 a b c d = (case (hex_digit a, hex_digit b, hex_digit c, hex_digit d) of
     (Some i, Some j, Some k, Some l) \<Rightarrow> Some (((i * 16 + j) * 16 + k) * 16 + l)
   | _ \<Rightarrow> None)"

definition backslash :: char where
  "backslash = char_of (92::nat)"

definition dquote :: char where
  "dquote = char_of (34::nat)"

text \<open>The one-character escapes of JSON.\<close>

definition simple_escape :: "char \<Rightarrow> char option" where
  "simple_escape c =
     (if c = dquote \<or> c = backslash \<or> c = CHR ''/'' then Some c
      else if c = CHR ''b'' then Some (char_of (8::nat))
      else if c = CHR ''f'' then Some (char_of (12::nat))
      else if c = CHR ''n'' then Some (char_of (10::nat))
      else if c = CHR ''r'' then Some (char_of (13::nat))
      else if c = CHR ''t'' then Some (char_of (9::nat))
      else None)"

text \<open>The four hexadecimal digits of a \<open>u\<close> escape.\<close>

definition take_hex4 :: "string \<Rightarrow> (nat \<times> string) option" where
  "take_hex4 t = (case t of a # b # c # d # u \<Rightarrow> map_option (\<lambda>n. (n, u)) (hex4 a b c d) | _ \<Rightarrow> None)"

text \<open>
  The text after a backslash: the bytes it stands for and what follows. A high surrogate
  joins with a low one written right after it; alone it stays as it is.
\<close>

definition decode_escape :: "string \<Rightarrow> (string \<times> string) option" where
  "decode_escape s = (case s of [] \<Rightarrow> None | e # t \<Rightarrow>
     if e \<noteq> CHR ''u'' then map_option (\<lambda>ch. ([ch], t)) (simple_escape e)
     else (case take_hex4 t of None \<Rightarrow> None | Some (n, u) \<Rightarrow>
       (case (if is_high n \<and> startswith u [backslash, CHR ''u''] then take_hex4 (drop 2 u) else None) of
          Some (m, w) \<Rightarrow>
            (if is_low m then Some (encode_cp (join_surrogates n m), w) else Some (encode_cp n, u))
        | None \<Rightarrow> Some (encode_cp n, u))))"

lemma take_hex4_length: "take_hex4 t = Some (n, u) \<Longrightarrow> length u < length t"
  by (auto simp: take_hex4_def split: list.splits)

lemma decode_escape_length [termination_simp]: "decode_escape s = Some (p, t) \<Longrightarrow> length t < length s"
proof (cases s)
  case (Cons e s')
  assume "decode_escape s = Some (p, t)"
  with Cons show ?thesis
    by (auto simp: decode_escape_def split: if_splits option.splits dest!: take_hex4_length)
qed (simp add: decode_escape_def)

text \<open>\<open>scanstring\<close>, called after the opening quote; \<open>strict\<close> mode.\<close>

abbreviation prepend :: "string \<Rightarrow> exn + string \<times> string \<Rightarrow> exn + string \<times> string" where
  "prepend p r \<equiv> bind_sum r (\<lambda>(str, rest). Inr (p @ str, rest))"

fun scanstring :: "string \<Rightarrow> exn + string \<times> string" where
  "scanstring [] = Inl JSONDecodeError"
| "scanstring (c # s) =
     (if c = dquote then Inr ([], s)
      else if ord_of c < 0x20 then Inl JSONDecodeError
      else if c \<noteq> backslash then prepend [c] (scanstring s)
      else (case decode_escape s of None \<Rightarrow> Inl JSONDecodeError
            | Some (p, t) \<Rightarrow> prepend p (scanstring t)))"

definition is_digit :: "char \<Rightarrow> bool" where
  "is_digit c \<longleftrightarrow> 48 \<le> ord_of c \<and> ord_of c \<le> 57"

definition int_of_digits :: "string \<Rightarrow> int" where
  "int_of_digits ds = foldl (\<lambda>n d. n * 10 + int (ord_of d - 48)) 0 ds"

text \<open>The integer part: \<open>0\<close> or a digit string that does not start with \<open>0\<close>.\<close>

definition int_part :: "string \<Rightarrow> string" where
  "int_part s = (case s of [] \<Rightarrow> []
     | c # t \<Rightarrow> if c = CHR ''0'' then [c] else takeWhile is_digit s)"

definition frac_part :: "string \<Rightarrow> string" where
  "frac_part s = (case s of c # d # t \<Rightarrow>
       if c = CHR ''.'' \<and> is_digit d then c # takeWhile is_digit (d # t) else []
     | _ \<Rightarrow> [])"

definition exp_part :: "string \<Rightarrow> string" where
  "exp_part s = (case s of c # t \<Rightarrow>
       if c = CHR ''e'' \<or> c = CHR ''E'' then
         (let sgn = (case t of d # _ \<Rightarrow> if d = CHR ''+'' \<or> d = CHR ''-'' then [d] else [] | _ \<Rightarrow> []);
              ds = takeWhile is_digit (drop (length sgn) t)
          in if ds = [] then [] else c # sgn @ ds)
       else []
     | _ \<Rightarrow> [])"

definition sign_part :: "string \<Rightarrow> string" where
  "sign_part s = (case s of c # _ \<Rightarrow> if c = CHR ''-'' then [c] else [] | _ \<Rightarrow> [])"

definition match_number :: "string \<Rightarrow> exn + json \<times> string" where
  "match_number s =
     (let sgn = sign_part s;
          s1 = drop (length sgn) s;
          ip = int_part s1; s2 = drop (length ip) s1;
          fp = frac_part s2; s3 = drop (length fp) s2;
          ep = exp_part s3; s4 = drop (length ep) s3
      in if ip = [] then Inl JSONDecodeError
         else if fp = [] \<and> ep = [] then
           (if 4300 < length ip then Inl ValueError
            else Inr (JInt (if sgn = [] then int_of_digits ip else - int_of_digits ip), s4))
         else Inr (JFloat (sgn @ ip @ fp @ ep), s4))"

text \<open>The constants and numbers.\<close>

definition scan_atom :: "string \<Rightarrow> exn + json \<times> string" where
  "scan_atom s =
     (if startswith s ''null'' then Inr (JNull, drop 4 s)
      else if startswith s ''true'' then Inr (JBool True, drop 4 s)
      else if startswith s ''false'' then Inr (JBool False, drop 5 s)
      else if startswith s ''NaN'' then Inr (JFloat ''NaN'', drop 3 s)
      else if startswith s ''Infinity'' then Inr (JFloat ''Infinity'', drop 8 s)
      else if startswith s ''-Infinity'' then Inr (JFloat ''-Infinity'', drop 9 s)
      else match_number s)"

fun scan_once :: "nat \<Rightarrow> string \<Rightarrow> exn + json \<times> string"
  and scan_object :: "nat \<Rightarrow> string \<Rightarrow> exn + (string \<times> json) list \<times> string"
  and scan_array :: "nat \<Rightarrow> string \<Rightarrow> exn + json list \<times> string" where
  "scan_once 0 s = Inl RecursionError"
| "scan_once (Suc n) s = (case s of [] \<Rightarrow> Inl JSONDecodeError | c # t \<Rightarrow>
     if c = dquote then bind_sum (scanstring t) (\<lambda>(str, u). Inr (JStr str, u))
     else if c = CHR ''{'' then
       (case skip_ws t of [] \<Rightarrow> Inl JSONDecodeError | d # u \<Rightarrow>
          if d = CHR ''}'' then Inr (JObj [], u)
          else bind_sum (scan_object n (d # u)) (\<lambda>(kvs, v). Inr (JObj kvs, v)))
     else if c = CHR ''['' then
       (case skip_ws t of [] \<Rightarrow> Inl JSONDecodeError | d # u \<Rightarrow>
          if d = CHR '']'' then Inr (JArr [], u)
          else bind_sum (scan_array n (d # u)) (\<lambda>(xs, v). Inr (JArr xs, v)))
     else scan_atom s)"
| "scan_object 0 s = Inl RecursionError"
| "scan_object (Suc n) s = (case s of [] \<Rightarrow> Inl JSONDecodeError | c # t \<Rightarrow>
     if c \<noteq> dquote then Inl JSONDecodeError
     else bind_sum (scanstring t) (\<lambda>(key, u). case skip_ws u of [] \<Rightarrow> Inl JSONDecodeError | d # v \<Rightarrow>
       if d \<noteq> CHR '':'' then Inl JSONDecodeError
       else bind_sum (scan_once n (skip_ws v)) (\<lambda>(val, x). case skip_ws x of [] \<Rightarrow> Inl JSONDecodeError
         | e # y \<Rightarrow>
           if e = CHR ''}'' then Inr ([(key, val)], y)
           else if e = CHR '','' then
             bind_sum (scan_object n (skip_ws y)) (\<lambda>(kvs, z). Inr ((key, val) # kvs, z))
           else Inl JSONDecodeError)))"
| "scan_array 0 s = Inl RecursionError"
| "scan_array (Suc n) s =
     bind_sum (scan_once n s) (\<lambda>(val, x). case skip_ws x of [] \<Rightarrow> Inl JSONDecodeError
       | e # y \<Rightarrow>
         if e = CHR '']'' then Inr ([val], y)
         else if e = CHR '','' then
           bind_sum (scan_array n (skip_ws y)) (\<lambda>(xs, z). Inr (val # xs, z))
         else Inl JSONDecodeError)"

definition json_decode :: "string \<Rightarrow> exn + json" where
  "json_decode s = bind_sum (scan_once (2 * length s + 1) (skip_ws s)) (\<lambda>(v, rest).
     if skip_ws rest = [] then Inr v else Inl JSONDecodeError)"

definition json_loads :: "string \<Rightarrow> exn + json" where
  "json_loads b = (case decode_bytes b of None \<Rightarrow> Inl UnicodeDecodeError | Some s \<Rightarrow> json_decode s)"

subsection \<open>Dictionaries and truth\<close>

text \<open>
  A later duplicate of a key overwrites an earlier one. \<open>event.get(key)\<close> of a dictionary
  gives \<open>None\<close> (here \<open>JNull\<close>) for a missing key.
\<close>

definition dict_get :: "(string \<times> json) list \<Rightarrow> string \<Rightarrow> json" where
  "dict_get kvs key = (case map_of (rev kvs) key of None \<Rightarrow> JNull | Some v \<Rightarrow> v)"

text \<open>
  Truth of a value, as \<open>if not path\<close> tests it. A float is false when its literal rounds to
  zero: its exact value is at most half of the least positive double, \<open>2\<close> to the \<open>-1075\<close>.
\<close>

definition exp_value :: "string \<Rightarrow> int" where
  "exp_value ep = (case ep of [] \<Rightarrow> 0 | _ # t \<Rightarrow>
     (case t of [] \<Rightarrow> 0 | d # ds \<Rightarrow>
        if d = CHR ''-'' then - int_of_digits ds
        else if d = CHR ''+'' then int_of_digits ds
        else int_of_digits (d # ds)))"

definition float_is_zero :: "string \<Rightarrow> bool" where
  "float_is_zero lit =
     (let s1 = (case lit of c # t \<Rightarrow> if c = CHR ''-'' then t else lit | [] \<Rightarrow> lit);
          ip = int_part s1; s2 = drop (length ip) s1;
          fp = frac_part s2; ep = exp_part (drop (length fp) s2);
          m = int_of_digits (ip @ drop 1 fp);
          e = exp_value ep - int (length (drop 1 fp))
      in ip \<noteq> [] \<and> (m = 0 \<or> (e < 0 \<and> m * 2 ^ 1075 \<le> 10 ^ nat (- e))))"

fun truthy :: "json \<Rightarrow> bool" where
  "truthy JNull = False"
| "truthy (JBool b) = b"
| "truthy (JInt n) = (n \<noteq> 0)"
| "truthy (JFloat lit) = (\<not> float_is_zero lit)"
| "truthy (JStr s) = (s \<noteq> [])"
| "truthy (JArr xs) = (xs \<noteq> [])"
| "truthy (JObj kvs) = (kvs \<noteq> [])"

subsection \<open>The scanner consumes its input and never runs out of fuel\<close>

lemma length_skip_ws: "length (skip_ws s) \<le> length s"
  by (simp add: skip_ws_def length_dropWhile_le)

lemma skip_ws_ConsD: "skip_ws s = c # t \<Longrightarrow> length t < length s"
  using length_skip_ws [of s] by simp

lemma scanstring_result:
  "(\<exists>str r. scanstring s = Inr (str, r) \<and> length r < length s) \<or> scanstring s = Inl JSONDecodeError"
proof (induction s rule: scanstring.induct)
  case (2 c s)
  then show ?case
    by (auto split: option.split dest: decode_escape_length) (fastforce dest: decode_escape_length)+
qed simp

lemma scanstring_Inr: "scanstring s = Inr (str, r) \<Longrightarrow> length r < length s"
  using scanstring_result [of s] by auto

lemma scanstring_Inl: "scanstring s = Inl e \<Longrightarrow> e = JSONDecodeError"
  using scanstring_result [of s] by auto

lemma int_part_nonempty: "int_part s \<noteq> [] \<Longrightarrow> 0 < length s"
  by (auto simp: int_part_def split: list.splits)

lemma match_number_Inr:
  assumes "match_number s = Inr (v, r)"
  shows "length r < length s"
proof -
  define s1 where "s1 = drop (length (sign_part s)) s"
  define s2 where "s2 = drop (length (int_part s1)) s1"
  define s3 where "s3 = drop (length (frac_part s2)) s2"
  have "int_part s1 \<noteq> []" and r: "r = drop (length (exp_part s3)) s3"
    using assms unfolding match_number_def Let_def s1_def [symmetric] s2_def [symmetric] s3_def [symmetric]
    by (simp_all split: if_splits)
  then have "0 < length s1" and "0 < length (int_part s1)"
    using int_part_nonempty by auto
  then have "length s2 < length s1" by (simp add: s2_def)
  moreover have "length s1 \<le> length s" "length s3 \<le> length s2" "length r \<le> length s3"
    by (simp_all add: s1_def s3_def r)
  ultimately show ?thesis by linarith
qed

lemma match_number_Inl: "match_number s = Inl e \<Longrightarrow> e = JSONDecodeError \<or> e = ValueError"
  by (auto simp: match_number_def Let_def split: if_splits)

text \<open>What every scanner gives: a strictly shorter rest, or an error that is not lack of fuel.\<close>

definition scan_ok :: "string \<Rightarrow> exn + 'a \<times> string \<Rightarrow> bool" where
  "scan_ok s res = (case res of Inl e \<Rightarrow> e = JSONDecodeError \<or> e = ValueError
     | Inr (v, r) \<Rightarrow> length r < length s)"

lemma scan_ok_Inl [simp]: "scan_ok s (Inl JSONDecodeError)"
  by (simp add: scan_ok_def)

lemma scan_ok_bind:
  assumes "scan_ok t m" and "length t \<le> length s"
    and "\<And>v r. m = Inr (v, r) \<Longrightarrow> length r < length t \<Longrightarrow> scan_ok s (f v r)"
  shows "scan_ok s (bind_sum m (\<lambda>(v, r). f v r))"
  using assms by (cases m) (auto simp: scan_ok_def)

lemma scanstring_ok: "scan_ok s (scanstring s)"
  using scanstring_result [of s] by (auto simp: scan_ok_def)

lemma match_number_ok: "scan_ok s (match_number s)"
  using match_number_Inr [of s] match_number_Inl [of s]
  by (auto simp: scan_ok_def split: sum.split)

lemma startswith_length: "startswith s p \<Longrightarrow> length p \<le> length s"
  by (auto simp: startswith_iff)

lemma scan_literal_ok: "startswith s p \<Longrightarrow> n = length p \<Longrightarrow> 0 < n \<Longrightarrow> scan_ok s (Inr (v, drop n s))"
  using startswith_length [of s p] by (auto simp: scan_ok_def intro!: diff_less)

lemma scan_atom_ok: "scan_ok s (scan_atom s)"
  using match_number_ok [of s] by (simp add: scan_atom_def scan_literal_ok)

lemma scan_once_step:
  assumes obj: "\<And>t. 2 * length t < n \<Longrightarrow> scan_ok t (scan_object n t)"
    and arr: "\<And>t. 2 * length t + 1 < n \<Longrightarrow> scan_ok t (scan_array n t)"
    and fuel: "2 * length s < Suc n"
  shows "scan_ok s (scan_once (Suc n) s)"
proof (cases s)
  case (Cons c t)
  have len: "length u < length t" if "skip_ws t = d # u" for d u
    using that by (rule skip_ws_ConsD)
  have str: "scan_ok s (bind_sum (scanstring t) (\<lambda>(str, u). Inr (JStr str, u)))"
    by (rule scan_ok_bind [OF scanstring_ok]) (auto simp: Cons scan_ok_def)
  have objs: "scan_ok s (bind_sum (scan_object n (d # u)) (\<lambda>(kvs, v). Inr (JObj kvs, v)))"
    if "skip_ws t = d # u" for d u
    using len [OF that] fuel
    by (intro scan_ok_bind [OF obj]) (auto simp: Cons scan_ok_def)
  have arrs: "scan_ok s (bind_sum (scan_array n (d # u)) (\<lambda>(xs, v). Inr (JArr xs, v)))"
    if "skip_ws t = d # u" for d u
    using len [OF that] fuel
    by (intro scan_ok_bind [OF arr]) (auto simp: Cons scan_ok_def)
  have tail: "scan_ok s (Inr (v, u))" if "skip_ws t = d # u" for v :: json and d u
    using len [OF that] by (simp add: Cons scan_ok_def)
  show ?thesis
    using str objs arrs tail scan_atom_ok [of s]
    by (auto simp: Cons split: list.split)
qed simp

text \<open>What follows a member: the closing bracket, or a comma and the other members.\<close>

lemma scan_more_ok:
  assumes "length x < length s"
    and "\<And>y. length y < length x \<Longrightarrow> scan_ok (skip_ws y) (more (skip_ws y))"
  shows "scan_ok s (case skip_ws x of [] \<Rightarrow> Inl JSONDecodeError
     | e # y \<Rightarrow> if e = close then Inr (v, y)
        else if e = CHR '','' then bind_sum (more (skip_ws y)) (\<lambda>(vs, z). Inr (f vs, z))
        else Inl JSONDecodeError)"
proof (cases "skip_ws x")
  case (Cons e y)
  then have y: "length y < length x" by (rule skip_ws_ConsD)
  then have "scan_ok s (bind_sum (more (skip_ws y)) (\<lambda>(vs, z). Inr (f vs, z)))"
    using assms length_skip_ws [of y]
    by (intro scan_ok_bind [of "skip_ws y"]) (auto simp: scan_ok_def)
  with Cons y assms(1) show ?thesis by (auto simp: scan_ok_def)
qed simp

lemma scan_array_step:
  assumes once: "\<And>t. 2 * length t < n \<Longrightarrow> scan_ok t (scan_once n t)"
    and arr: "\<And>t. 2 * length t + 1 < n \<Longrightarrow> scan_ok t (scan_array n t)"
    and fuel: "2 * length s + 1 < Suc n"
  shows "scan_ok s (scan_array (Suc n) s)"
proof -
  have "2 * length (skip_ws y) + 1 < n" if "length y < length x" "length x < length s" for x y
    using that fuel length_skip_ws [of y] by linarith
  with once fuel show ?thesis
    by (auto intro!: scan_ok_bind [of s] scan_more_ok [where f = "\<lambda>xs. _ # xs"] arr)
qed

lemma scan_object_step:
  assumes once: "\<And>t. 2 * length t < n \<Longrightarrow> scan_ok t (scan_once n t)"
    and obj: "\<And>t. 2 * length t < n \<Longrightarrow> scan_ok t (scan_object n t)"
    and fuel: "2 * length s < Suc n"
  shows "scan_ok s (scan_object (Suc n) s)"
proof (cases s)
  case (Cons c t)
  let ?more = "\<lambda>key val x. case skip_ws x of [] \<Rightarrow> Inl JSONDecodeError
         | e # y \<Rightarrow> if e = CHR ''}'' then Inr ([(key, val)], y)
           else if e = CHR '','' then bind_sum (scan_object n (skip_ws y)) (\<lambda>(kvs, z). Inr ((key, val) # kvs, z))
           else Inl JSONDecodeError"
  let ?val = "\<lambda>key u. case skip_ws u of [] \<Rightarrow> Inl JSONDecodeError | d # v \<Rightarrow>
       if d \<noteq> CHR '':'' then Inl JSONDecodeError
       else bind_sum (scan_once n (skip_ws v)) (\<lambda>(val, x). ?more key val x)"
  have val: "scan_ok s (bind_sum (scan_once n (skip_ws v)) (\<lambda>(val, x). ?more key val x))"
    if v: "length v < length t" for v key
  proof (rule scan_ok_bind)
    have sk: "length (skip_ws v) < length s" using v length_skip_ws [of v] Cons by simp
    then show "length (skip_ws v) \<le> length s" by simp
    show "scan_ok (skip_ws v) (scan_once n (skip_ws v))" using sk fuel by (intro once) linarith
    fix val and x :: string
    assume x: "length x < length (skip_ws v)"
    have "2 * length (skip_ws y) < n" if "length y < length x" for y
      using that x sk fuel length_skip_ws [of y] by linarith
    with x sk show "scan_ok s (?more key val x)"
      by (intro scan_more_ok [where f = "\<lambda>kvs. (key, val) # kvs"] obj) auto
  qed
  have "scan_ok s (bind_sum (scanstring t) (\<lambda>(key, u). ?val key u))"
  proof (rule scan_ok_bind [OF scanstring_ok])
    fix key and u :: string
    assume u: "length u < length t"
    have "length v < length t" if "skip_ws u = d # v" for d v
      using skip_ws_ConsD [OF that] u by linarith
    with val show "scan_ok s (?val key u)" by (auto split: list.split)
  qed (simp add: Cons)
  then show ?thesis by (cases "c = dquote") (simp_all add: Cons)
qed simp

lemma scan_enough_fuel:
  "(2 * length s < n \<longrightarrow> scan_ok s (scan_once n s)) \<and>
   (2 * length s < n \<longrightarrow> scan_ok s (scan_object n s)) \<and>
   (2 * length s + 1 < n \<longrightarrow> scan_ok s (scan_array n s))"
proof (induction n arbitrary: s)
  case (Suc n)
  from Suc scan_once_step [of n s] scan_object_step [of n s] scan_array_step [of n s]
  show ?case by blast
qed simp

text \<open>\<open>json.loads\<close> gives a value or one of its three documented errors.\<close>

lemma json_loads_total:
  "(\<exists>v. json_loads b = Inr v) \<or> json_loads b \<in> {Inl UnicodeDecodeError, Inl JSONDecodeError, Inl ValueError}"
proof -
  have "(\<exists>v. json_decode s = Inr v) \<or> json_decode s \<in> {Inl JSONDecodeError, Inl ValueError}" for s
  proof -
    have "2 * length (skip_ws s) < 2 * length s + 1" using length_skip_ws [of s] by simp
    then have "scan_ok (skip_ws s) (scan_once (2 * length s + 1) (skip_ws s))"
      using scan_enough_fuel by blast
    then show ?thesis
      unfolding json_decode_def
      by (cases "scan_once (2 * length s + 1) (skip_ws s)") (auto simp: scan_ok_def simp del: scan_once.simps)
  qed
  then show ?thesis by (auto simp: json_loads_def split: option.split)
qed

end
