(* ===== verification/RedisIf.thy ===== *)
theory RedisIf
  imports PyConfig PyJson
begin

text \<open>
  The Redis service as the Python programs see it. The client is a parameter: a record of the
  calls the sources make, each a computation on the outside world \<open>'w\<close>. What the programs
  rely on is stated as locales over a view of the server's contents: the documented effect of
  each command, applied atomically at some moment between call and return, while other
  clients may act before it as a relation \<open>rely\<close> allows. A failing call may or may not have
  reached the server.
\<close>

subsection \<open>The client\<close>

text \<open>Commands queued on a pipeline; arguments are Python values.\<close>

datatype redis_cmd = Hset string json json | Hdel string json

record 'w redis_client =
  rd_from_url :: "cfgval \<Rightarrow> ('w, unit) py"
  rd_ping :: "('w, unit) py"
  rd_hlen :: "string \<Rightarrow> ('w, int) py"
  rd_hgetall :: "string \<Rightarrow> ('w, (string \<times> string) list) py"
  rd_hscan :: "string \<Rightarrow> int \<Rightarrow> int \<Rightarrow> ('w, int \<times> string list) py"
  rd_exists :: "string \<Rightarrow> ('w, bool) py"
  rd_rename :: "string \<Rightarrow> string \<Rightarrow> ('w, unit) py"
  rd_delete :: "string \<Rightarrow> ('w, unit) py"
  rd_set_nx_ex :: "string \<Rightarrow> string \<Rightarrow> int \<Rightarrow> ('w, bool) py"
  rd_get :: "string \<Rightarrow> ('w, string option) py"
  rd_hset_map :: "string \<Rightarrow> (string \<times> string) list \<Rightarrow> ('w, unit) py"
  rd_pipeline :: "redis_cmd list \<Rightarrow> ('w, unit) py"

subsection \<open>Contents of the server and the documented commands\<close>

text \<open>
  A missing hash is the empty one (Redis removes empty hashes). A string key carries the time
  at which it expires.
\<close>

record redis_db =
  hashes :: "string \<Rightarrow> string \<rightharpoonup> string"
  strings :: "string \<Rightarrow> (string \<times> int) option"
  server_time :: int

datatype db_cmd = Put string string string | Del string string

definition db_put :: "string \<Rightarrow> string \<Rightarrow> string option \<Rightarrow> redis_db \<Rightarrow> redis_db" where
  "db_put key field val db = db\<lparr>hashes := (hashes db)(key := (hashes db key)(field := val))\<rparr>"

fun exec_cmd :: "db_cmd \<Rightarrow> redis_db \<Rightarrow> redis_db" where
  "exec_cmd (Put key field val) db = db_put key field (Some val) db"
| "exec_cmd (Del key field) db = db_put key field None db"

definition db_run :: "db_cmd list \<Rightarrow> redis_db \<Rightarrow> redis_db" where
  "db_run cmds db = foldl (\<lambda>d c. exec_cmd c d) db cmds"

definition db_rename :: "string \<Rightarrow> string \<Rightarrow> redis_db \<Rightarrow> redis_db" where
  "db_rename old new db = db\<lparr>hashes := (hashes db)(old := Map.empty, new := hashes db old)\<rparr>"

definition db_delete :: "string \<Rightarrow> redis_db \<Rightarrow> redis_db" where
  "db_delete key db =
     db\<lparr>hashes := (hashes db)(key := Map.empty), strings := (strings db)(key := None)\<rparr>"

definition db_live :: "redis_db \<Rightarrow> string \<Rightarrow> string option" where
  "db_live db key = (case strings db key of None \<Rightarrow> None
     | Some (val, expiry) \<Rightarrow> if server_time db < expiry then Some val else None)"

definition db_set_nx_ex :: "string \<Rightarrow> string \<Rightarrow> int \<Rightarrow> redis_db \<Rightarrow> bool \<times> redis_db" where
  "db_set_nx_ex key val ttl db =
     (if db_live db key = None
      then (True, db\<lparr>strings := (strings db)(key \<mapsto> (val, server_time db + ttl))\<rparr>)
      else (False, db))"

subsection \<open>Encoding of arguments\<close>

text \<open>
  redis-py sends \<open>str\<close> as strict UTF-8 and numbers as their decimal text (\<open>fr\<close> is the text of a
  float); every other value is a \<open>DataError\<close>. Encoding happens before anything is sent.
\<close>

fun encode_arg :: "(string \<Rightarrow> string) \<Rightarrow> json \<Rightarrow> exn + string" where
  "encode_arg fr (JStr s) = (if utf8_ok False s then Inr s else Inl UnicodeEncodeError)"
| "encode_arg fr (JInt n) = Inr (show_int n)"
| "encode_arg fr (JFloat lit) = Inr (fr lit)"
| "encode_arg fr _ = Inl RedisDataError"

fun encode_cmd :: "(string \<Rightarrow> string) \<Rightarrow> redis_cmd \<Rightarrow> exn + db_cmd" where
  "encode_cmd fr (Hset key field val) =
     bind_sum (encode_arg fr field) (\<lambda>f. bind_sum (encode_arg fr val) (\<lambda>v. Inr (Put key f v)))"
| "encode_cmd fr (Hdel key field) = bind_sum (encode_arg fr field) (\<lambda>f. Inr (Del key f))"

fun encode_cmds :: "(string \<Rightarrow> string) \<Rightarrow> redis_cmd list \<Rightarrow> exn + db_cmd list" where
  "encode_cmds fr [] = Inr []"
| "encode_cmds fr (c # cs) =
     bind_sum (encode_cmd fr c) (\<lambda>d. bind_sum (encode_cmds fr cs) (\<lambda>ds. Inr (d # ds)))"

lemma encode_arg_error: "encode_arg fr v = Inl e \<Longrightarrow> e = UnicodeEncodeError \<or> e = RedisDataError"
  by (cases v) (auto split: if_splits)

lemma encode_cmd_error: "encode_cmd fr c = Inl e \<Longrightarrow> e = UnicodeEncodeError \<or> e = RedisDataError"
  by (cases c) (auto simp: bind_sum_def dest: encode_arg_error split: sum.splits)

lemma encode_cmds_error: "encode_cmds fr cs = Inl e \<Longrightarrow> e = UnicodeEncodeError \<or> e = RedisDataError"
  by (induction cs) (auto simp: bind_sum_def dest: encode_cmd_error split: sum.splits)

subsection \<open>Atomic calls under interference\<close>

definition atomic ::
  "('w \<Rightarrow> 'v) \<Rightarrow> ('v \<Rightarrow> 'v \<Rightarrow> bool) \<Rightarrow>
   ('v \<Rightarrow> exn + 'a \<Rightarrow> 'v \<Rightarrow> bool) \<Rightarrow> ('w, 'a) py \<Rightarrow> bool" where
  "atomic view rely eff m \<longleftrightarrow>
     (\<forall>w. \<exists>r w' v. m w = Some (r, w') \<and> rely (view w) v \<and> eff v r (view w'))"

text \<open>A call that leaves what \<open>view\<close> shows alone: only the interference changes it meanwhile.\<close>

abbreviation quiet :: "('w \<Rightarrow> 'v) \<Rightarrow> ('v \<Rightarrow> 'v \<Rightarrow> bool) \<Rightarrow> ('w, 'a) py \<Rightarrow> bool" where
  "quiet view rely m \<equiv> atomic view rely (\<lambda>v r v'. v' = v) m"

lemma atomic_wp:
  assumes "atomic view rely eff m"
    and "\<And>v w' x. rely (view w) v \<Longrightarrow> eff v (Inr x) (view w') \<Longrightarrow> Q x w'"
    and "\<And>v w' e. rely (view w) v \<Longrightarrow> eff v (Inl e) (view w') \<Longrightarrow> E e w'"
  shows "wp d m Q E w"
proof -
  from assms(1) obtain r w' v where "m w = Some (r, w')" "rely (view w) v" "eff v r (view w')"
    unfolding atomic_def by blast
  with assms(2,3) show ?thesis by (cases r) (auto simp: wp_def)
qed

subsection \<open>The documented effects\<close>

text \<open>The effect of a call that writes: done on success, done or not on a Redis error.\<close>

definition write_eff :: "(redis_db \<Rightarrow> redis_db) \<Rightarrow> redis_db \<Rightarrow> exn + 'a \<Rightarrow> redis_db \<Rightarrow> bool" where
  "write_eff f v r v' = (case r of Inr _ \<Rightarrow> v' = f v | Inl e \<Rightarrow> is_RedisError e \<and> (v' = v \<or> v' = f v))"

definition pipeline_eff ::
  "(string \<Rightarrow> string) \<Rightarrow> redis_cmd list \<Rightarrow> redis_db \<Rightarrow> exn + unit \<Rightarrow> redis_db \<Rightarrow> bool" where
  "pipeline_eff fr cmds v r v' = (case encode_cmds fr cmds of
     Inr ds \<Rightarrow> write_eff (db_run ds) v r v'
   | Inl e' \<Rightarrow> v' = v \<and> (case r of Inr _ \<Rightarrow> False | Inl e \<Rightarrow> e = e' \<or> is_RedisError e))"

definition set_nx_eff ::
  "string \<Rightarrow> string \<Rightarrow> int \<Rightarrow> redis_db \<Rightarrow> exn + bool \<Rightarrow> redis_db \<Rightarrow> bool" where
  "set_nx_eff key val ttl v r v' = (case r of
     Inr b \<Rightarrow> (b, v') = db_set_nx_ex key val ttl v
   | Inl e \<Rightarrow> is_RedisError e \<and> (v' = v \<or> v' = snd (db_set_nx_ex key val ttl v)))"

text \<open>\<open>RENAME\<close> of a missing key is an error reply.\<close>

definition rename_eff ::
  "string \<Rightarrow> string \<Rightarrow> redis_db \<Rightarrow> exn + unit \<Rightarrow> redis_db \<Rightarrow> bool" where
  "rename_eff old new v r v' = (case r of
     Inr _ \<Rightarrow> hashes v old \<noteq> Map.empty \<and> v' = db_rename old new v
   | Inl e \<Rightarrow> is_RedisError e \<and>
       (if hashes v old = Map.empty then v' = v
        else e \<noteq> RedisResponseError \<and> (v' = v \<or> v' = db_rename old new v)))"

definition read_eff :: "('v \<Rightarrow> 'a \<Rightarrow> bool) \<Rightarrow> 'v \<Rightarrow> exn + 'a \<Rightarrow> 'v \<Rightarrow> bool" where
  "read_eff P v r v' \<longleftrightarrow> v' = v \<and> (case r of Inr x \<Rightarrow> P v x | Inl e \<Rightarrow> is_RedisError e)"

subsection \<open>The contracts\<close>

locale redis_view =
  fixes view :: "'w \<Rightarrow> redis_db" and rely :: "redis_db \<Rightarrow> redis_db \<Rightarrow> bool"
  assumes rely_refl: "rely v v"
    and rely_trans: "rely u v \<Longrightarrow> rely v w \<Longrightarrow> rely u w"

locale redis_writer = redis_view view rely
  for view :: "'w \<Rightarrow> redis_db" and rely +
  fixes R :: "'w redis_client" and fr :: "string \<Rightarrow> string"
  assumes pipeline: "atomic view rely (pipeline_eff fr cmds) (rd_pipeline R cmds)"
    and ping: "atomic view rely (read_eff (\<lambda>_ _. True)) (rd_ping R)"
    and hlen: "atomic view rely (read_eff (\<lambda>v n. n = int (card (dom (hashes v key))))) (rd_hlen R key)"

locale redis_lock = redis_view view rely
  for view :: "'w \<Rightarrow> redis_db" and rely +
  fixes R :: "'w redis_client"
  assumes set_nx_ex: "atomic view rely (set_nx_eff key val ttl) (rd_set_nx_ex R key val ttl)"
    and get: "atomic view rely (read_eff (\<lambda>v x. x = db_live v key)) (rd_get R key)"
    and delete: "atomic view rely (write_eff (db_delete key)) (rd_delete R key)"

text \<open>
  The contract of the backup run. \<open>todo w key c\<close> is what a scan that continues at cursor \<open>c\<close>
  still has to return, \<open>rank\<close> bounds the calls it still needs: a full iteration returns every
  field that is there throughout, possibly more than once, and ends.
\<close>

locale redis_backup = redis_writer view rely R fr + redis_lock view rely R
  for view :: "'w \<Rightarrow> redis_db" and rely and R and fr +
  fixes todo :: "'w \<Rightarrow> string \<Rightarrow> int \<Rightarrow> string set" and rank :: "'w \<Rightarrow> string \<Rightarrow> int \<Rightarrow> nat"
  assumes exists: "atomic view rely (read_eff (\<lambda>v b. b = (hashes v key \<noteq> Map.empty))) (rd_exists R key)"
    and rename: "atomic view rely (rename_eff old new) (rd_rename R old new)"
    and hset_map: "atomic view rely
          (write_eff (db_run (map (\<lambda>(f, x). Put key f x) kvs))) (rd_hset_map R key kvs)"
    and hscan: "atomic view rely (read_eff (\<lambda>v (c', items). set items \<subseteq> dom (hashes v key)))
          (rd_hscan R key c count)"
    and hscan_start: "dom (hashes (view w) key) \<subseteq> todo w key 0"
    and hscan_next: "rd_hscan R key c count w = Some (Inr (c', items), w') \<Longrightarrow>
          todo w key c \<subseteq> set items \<union> (if c' = 0 then {} else todo w' key c')"
    and hscan_rank: "rd_hscan R key c count w = Some (Inr (c', items), w') \<Longrightarrow> c' \<noteq> 0 \<Longrightarrow>
          rank w' key c' < rank w key c"

subsection \<open>Runs of commands\<close>

lemma db_run_Nil [simp]: "db_run [] db = db"
  by (simp add: db_run_def)

lemma db_run_Cons [simp]: "db_run (c # cs) db = db_run cs (exec_cmd c db)"
  by (simp add: db_run_def)

lemma db_run_append [simp]: "db_run (xs @ ys) db = db_run ys (db_run xs db)"
  by (simp add: db_run_def)

text \<open>The last command that names a field decides it; a field no command names is kept.\<close>

fun cmd_field :: "db_cmd \<Rightarrow> string \<times> string" where
  "cmd_field (Put key f v) = (key, f)"
| "cmd_field (Del key f) = (key, f)"

fun cmd_value :: "db_cmd \<Rightarrow> string option" where
  "cmd_value (Put key f v) = Some v"
| "cmd_value (Del key f) = None"

definition last_write :: "db_cmd list \<Rightarrow> string \<Rightarrow> string \<Rightarrow> string option option" where
  "last_write cmds key f = map_of (rev (map (\<lambda>c. (cmd_field c, cmd_value c)) cmds)) (key, f)"

lemma exec_cmd_lookup: "hashes (exec_cmd c db) key f =
    (if cmd_field c = (key, f) then cmd_value c else hashes db key f)"
  by (cases c) (auto simp: db_put_def)

lemma db_run_lookup: "hashes (db_run cmds db) key f =
    (case last_write cmds key f of None \<Rightarrow> hashes db key f | Some v \<Rightarrow> v)"
proof (induction cmds arbitrary: db)
  case Nil
  show ?case by (simp add: last_write_def)
next
  case (Cons c cmds)
  then show ?case by (auto simp: last_write_def exec_cmd_lookup map_add_def split: option.splits)
qed

lemma exec_cmd_frame [simp]: "strings (exec_cmd c db) = strings db" "server_time (exec_cmd c db) = server_time db"
  by (cases c; simp add: db_put_def)+

lemma db_run_frame [simp]: "strings (db_run cmds db) = strings db" "server_time (db_run cmds db) = server_time db"
  by (induction cmds arbitrary: db) simp_all

lemma redis_db_eqI: "(\<And>k f. hashes a k f = hashes b k f) \<Longrightarrow> strings a = strings b \<Longrightarrow>
    server_time a = server_time b \<Longrightarrow> a = (b :: redis_db)"
  by (simp add: fun_eq_iff)

text \<open>Running a list of commands again changes nothing.\<close>

lemma db_run_idem: "db_run cmds (db_run cmds db) = db_run cmds db"
  by (rule redis_db_eqI) (simp_all add: db_run_lookup split: option.split)

end
