(* ===== verification/RedisMem.thy ===== *)
theory RedisMem
  imports RedisIf "HOL-Library.AList"
begin

text \<open>
  An in-memory Redis that meets the contracts of \<open>RedisIf\<close>: hashes as association lists,
  string keys with their expiry, paged scans, and a script of faults (the head of the script
  says whether the next call fails with a connection error). The record is extensible, so the
  worlds used to exercise the programs add their own fields.
\<close>

record mem =
  m_hash :: "string \<Rightarrow> (string \<times> string) list"
  m_str :: "string \<Rightarrow> (string \<times> int) option"
  m_time :: int
  m_faults :: "bool list"

definition mem_view :: "'z mem_scheme \<Rightarrow> redis_db" where
  "mem_view m = \<lparr>hashes = (\<lambda>k. map_of (m_hash m k)), strings = m_str m, server_time = m_time m\<rparr>"

definition mem_call :: "('z mem_scheme \<Rightarrow> (exn + 'a) \<times> 'z mem_scheme) \<Rightarrow> ('z mem_scheme, 'a) py" where
  "mem_call f = (\<lambda>m. case m_faults m of
       [] \<Rightarrow> Some (f m)
     | b # bs \<Rightarrow> if b then Some (Inl RedisConnectionError, m\<lparr>m_faults := bs\<rparr>)
                 else Some (f (m\<lparr>m_faults := bs\<rparr>)))"

definition mem_set_hash :: "string \<Rightarrow> (string \<times> string) list \<Rightarrow> 'z mem_scheme \<Rightarrow> 'z mem_scheme" where
  "mem_set_hash k al m = m\<lparr>m_hash := (m_hash m)(k := al)\<rparr>"

fun mem_cmd :: "'z mem_scheme \<Rightarrow> db_cmd \<Rightarrow> 'z mem_scheme" where
  "mem_cmd m (Put k f v) = mem_set_hash k (AList.update f v (m_hash m k)) m"
| "mem_cmd m (Del k f) = mem_set_hash k (AList.delete f (m_hash m k)) m"

definition mem_page :: "int \<Rightarrow> int \<Rightarrow> string list \<Rightarrow> int \<times> string list" where
  "mem_page c count keys =
     (let k = max 1 (nat count); next = nat c + k
      in (if next < length keys then int next else 0, take k (drop (nat c) keys)))"

definition mem_redis :: "(string \<Rightarrow> string) \<Rightarrow> 'z mem_scheme redis_client" where
  "mem_redis fr = \<lparr>
     rd_from_url = (\<lambda>url m. Some (Inr (), m)),
     rd_ping = mem_call (\<lambda>m. (Inr (), m)),
     rd_hlen = (\<lambda>k. mem_call (\<lambda>m. (Inr (int (length (remdups (map fst (m_hash m k))))), m))),
     rd_hgetall = (\<lambda>k. mem_call (\<lambda>m. (Inr (m_hash m k), m))),
     rd_hscan = (\<lambda>k c count. mem_call (\<lambda>m. (Inr (mem_page c count (map fst (m_hash m k))), m))),
     rd_exists = (\<lambda>k. mem_call (\<lambda>m. (Inr (m_hash m k \<noteq> []), m))),
     rd_rename = (\<lambda>a b. mem_call (\<lambda>m.
        if m_hash m a = [] then (Inl RedisResponseError, m)
        else (Inr (), mem_set_hash b (m_hash m a) (mem_set_hash a [] m)))),
     rd_delete = (\<lambda>k. mem_call (\<lambda>m. (Inr (), mem_set_hash k [] (m\<lparr>m_str := (m_str m)(k := None)\<rparr>)))),
     rd_set_nx_ex = (\<lambda>k v ttl. mem_call (\<lambda>m.
        if (case m_str m k of None \<Rightarrow> True | Some (_, t) \<Rightarrow> t \<le> m_time m)
        then (Inr True, m\<lparr>m_str := (m_str m)(k \<mapsto> (v, m_time m + ttl))\<rparr>)
        else (Inr False, m))),
     rd_get = (\<lambda>k. mem_call (\<lambda>m. (Inr (db_live (mem_view m) k), m))),
     rd_hset_map = (\<lambda>k kvs. mem_call (\<lambda>m. (Inr (), foldl mem_cmd m (map (\<lambda>(f, v). Put k f v) kvs)))),
     rd_pipeline = (\<lambda>cmds. case encode_cmds fr cmds of
        Inl e \<Rightarrow> (\<lambda>m. Some (Inl e, m))
      | Inr ds \<Rightarrow> mem_call (\<lambda>m. (Inr (), foldl mem_cmd m ds))) \<rparr>"

definition mem_todo :: "'z mem_scheme \<Rightarrow> string \<Rightarrow> int \<Rightarrow> string set" where
  "mem_todo m k c = set (drop (nat c) (map fst (m_hash m k)))"

definition mem_rank :: "'z mem_scheme \<Rightarrow> string \<Rightarrow> int \<Rightarrow> nat" where
  "mem_rank m k c = length (m_hash m k) - nat c"

definition mem_empty :: mem where
  "mem_empty = \<lparr>m_hash = (\<lambda>_. []), m_str = (\<lambda>_. None), m_time = 0, m_faults = []\<rparr>"

subsection \<open>It meets the contracts\<close>

lemma mem_call_atomic:
  assumes "\<And>m r m'. f m = (r, m') \<Longrightarrow> eff (mem_view m) r (mem_view m')"
    and "\<And>v. eff v (Inl RedisConnectionError) v"
  shows "atomic mem_view (=) eff (mem_call f)"
  unfolding atomic_def
proof
  fix m :: "'a mem_scheme"
  have faults: "mem_view (m\<lparr>m_faults := bs\<rparr>) = mem_view m" for bs by (simp add: mem_view_def)
  show "\<exists>r m' v. mem_call f m = Some (r, m') \<and> mem_view m = v \<and> eff v r (mem_view m')"
  proof (cases "m_faults m")
    case Nil
    with assms(1) show ?thesis by (cases "f m") (auto simp: mem_call_def)
  next
    case (Cons b bs)
    with assms faults show ?thesis
      by (cases b; cases "f (m\<lparr>m_faults := bs\<rparr>)") (auto simp: mem_call_def dest: assms(1))
  qed
qed

lemma hashes_mem_view [simp]: "hashes (mem_view m) = (\<lambda>k. map_of (m_hash m k))"
  by (simp add: mem_view_def)

lemma mem_view_set_hash: "mem_view (mem_set_hash k al m) =
    (mem_view m)\<lparr>hashes := (hashes (mem_view m))(k := map_of al)\<rparr>"
  by (auto simp: mem_view_def mem_set_hash_def fun_eq_iff)

lemma mem_view_cmd: "mem_view (mem_cmd m c) = exec_cmd c (mem_view m)"
  by (cases c) (simp_all add: mem_view_set_hash db_put_def update_conv' delete_conv')

lemma mem_view_cmds: "mem_view (foldl mem_cmd m ds) = db_run ds (mem_view m)"
  by (induction ds arbitrary: m) (simp_all add: mem_view_cmd)

lemma map_of_eq_empty: "map_of al = Map.empty \<longleftrightarrow> al = []"
  by (cases al) (auto simp: fun_eq_iff)

lemma card_dom_map_of: "int (card (dom (map_of al))) = int (length (remdups (map fst al)))"
  by (simp add: dom_map_of_conv_image_fst flip: set_map length_remdups_card_conv)

lemma mem_pipeline: "atomic mem_view (=) (pipeline_eff fr cmds) (rd_pipeline (mem_redis fr) cmds)"
proof (cases "encode_cmds fr cmds")
  case (Inl e)
  then show ?thesis by (simp add: mem_redis_def atomic_def pipeline_eff_def)
next
  case (Inr ds)
  then show ?thesis
    by (auto simp: mem_redis_def pipeline_eff_def write_eff_def mem_view_cmds intro!: mem_call_atomic)
qed

lemma mem_page_next: "mem_page c count keys = (c', items) \<Longrightarrow>
    set (drop (nat c) keys) \<subseteq> set items \<union> (if c' = 0 then {} else set (drop (nat c') keys))"
proof -
  assume page: "mem_page c count keys = (c', items)"
  define k where "k = max 1 (nat count)"
  have "set (drop (nat c) keys) = set (take k (drop (nat c) keys)) \<union> set (drop (nat c + k) keys)"
    by (metis add.commute append_take_drop_id drop_drop set_append)
  then show ?thesis using page by (auto simp: mem_page_def Let_def k_def simp del: of_nat_add split: if_splits)
qed

lemma mem_call_hscanD:
  "rd_hscan (mem_redis fr) k c count m = Some (Inr (c', items), m') \<Longrightarrow>
     mem_page c count (map fst (m_hash m k)) = (c', items) \<and> m_hash m' = m_hash m"
  by (auto simp: mem_redis_def mem_call_def split: list.splits if_splits)

interpretation mem: redis_backup mem_view "(=)" "mem_redis fr" fr mem_todo mem_rank
proof unfold_locales
  fix k old new val :: string and ttl c count :: int and kvs
  show "atomic mem_view (=) (pipeline_eff fr cmds) (rd_pipeline (mem_redis fr) cmds)" for cmds
    by (rule mem_pipeline)
  show "atomic mem_view (=) (read_eff (\<lambda>_ _. True)) (rd_ping (mem_redis fr))"
    by (auto simp: mem_redis_def read_eff_def intro!: mem_call_atomic)
  show "atomic mem_view (=) (read_eff (\<lambda>v n. n = int (card (dom (hashes v k))))) (rd_hlen (mem_redis fr) k)"
    by (auto simp: mem_redis_def read_eff_def card_dom_map_of intro!: mem_call_atomic)
  show "atomic mem_view (=) (set_nx_eff k val ttl) (rd_set_nx_ex (mem_redis fr) k val ttl)"
    by (auto simp: mem_redis_def set_nx_eff_def db_set_nx_ex_def db_live_def mem_view_def
        intro!: mem_call_atomic split: option.splits if_splits)
  show "atomic mem_view (=) (read_eff (\<lambda>v x. x = db_live v k)) (rd_get (mem_redis fr) k)"
    by (auto simp: mem_redis_def read_eff_def intro!: mem_call_atomic)
  show "atomic mem_view (=) (write_eff (db_delete k)) (rd_delete (mem_redis fr) k)"
    by (auto simp: mem_redis_def write_eff_def db_delete_def mem_set_hash_def mem_view_def fun_eq_iff
        intro!: mem_call_atomic)
  show "atomic mem_view (=) (read_eff (\<lambda>v b. b = (hashes v k \<noteq> Map.empty))) (rd_exists (mem_redis fr) k)"
    by (auto simp: mem_redis_def read_eff_def map_of_eq_empty intro!: mem_call_atomic)
  show "atomic mem_view (=) (rename_eff old new) (rd_rename (mem_redis fr) old new)"
    by (auto simp: mem_redis_def rename_eff_def map_of_eq_empty mem_view_set_hash db_rename_def
        intro!: mem_call_atomic split: if_splits)
  show "atomic mem_view (=) (write_eff (db_run (map (\<lambda>(f, x). Put k f x) kvs))) (rd_hset_map (mem_redis fr) k kvs)"
    by (auto simp: mem_redis_def write_eff_def mem_view_cmds intro!: mem_call_atomic)
  show "atomic mem_view (=) (read_eff (\<lambda>v (c', items). set items \<subseteq> dom (hashes v k)))
          (rd_hscan (mem_redis fr) k c count)"
    by (auto simp: mem_redis_def read_eff_def mem_page_def Let_def dom_map_of_conv_image_fst
        intro!: mem_call_atomic dest!: in_set_takeD in_set_dropD)
  show "dom (hashes (mem_view m) k) \<subseteq> mem_todo m k 0" for m :: "'a mem_scheme"
    by (simp add: mem_todo_def dom_map_of_conv_image_fst)
  fix m m' :: "'a mem_scheme" and c' items
  assume scan: "rd_hscan (mem_redis fr) k c count m = Some (Inr (c', items), m')"
  note page = mem_call_hscanD [OF scan]
  show "mem_todo m k c \<subseteq> set items \<union> (if c' = 0 then {} else mem_todo m' k c')"
    using mem_page_next [OF conjunct1 [OF page]] page by (auto simp: mem_todo_def)
  show "mem_rank m' k c' < mem_rank m k c" if "c' \<noteq> 0"
    using page that by (auto simp: mem_rank_def mem_page_def Let_def simp del: of_nat_add
        intro!: diff_less_mono2 split: if_splits)
qed auto

end
