(* ===== verification/EventProcessor.thy ===== *)
theory EventProcessor
  imports RedisMem
begin

text \<open>
  \<open>consumer/consumer.py\<close>: the class \<open>EventProcessor\<close>. Its state is the object's counters and
  batch, the outside world it talks to Redis through, and the sequence of calls made on the
  Prometheus objects (which the program never reads back). Log calls are left out.
\<close>

subsection \<open>State\<close>

datatype metric =
    EVENTS_PROCESSED
  | EVENTS_SKIPPED_DELETE
  | EVENTS_ERRORS
  | EVENTS_REDIS_ERRORS
  | PENDING_TOTAL
  | KAFKA_ERRORS string
  | KAFKA_COMMIT_ERRORS

datatype metric_call = Inc metric nat | Set_gauge metric int

text \<open>Entries of \<open>_batch\<close>: \<open>("hset", (path, event_type))\<close> and \<open>("rename", (old, new))\<close>.\<close>

datatype action = Act_hset json json | Act_rename json json

record 'w ep =
  world :: 'w
  processed :: int
  skipped_delete :: int
  errors :: int
  batch :: "action list"
  prom :: "metric_call list"

definition ep_init :: "'w \<Rightarrow> metric_call list \<Rightarrow> 'w ep" where
  "ep_init w ms = \<lparr>world = w, processed = 0, skipped_delete = 0, errors = 0, batch = [], prom = ms\<rparr>"

text \<open>A call to the outside world from inside an object.\<close>

definition in_world :: "('w, 'a) py \<Rightarrow> (('w, 'z) ep_scheme, 'a) py" where
  "in_world m = (\<lambda>s. Option.bind (m (world s)) (\<lambda>(r, w). Some (r, s\<lparr>world := w\<rparr>)))"

definition inc :: "metric \<Rightarrow> nat \<Rightarrow> (('w, 'z) ep_scheme, unit) py" where
  "inc m n = modify_py (\<lambda>s. s\<lparr>prom := prom s @ [Inc m n]\<rparr>)"

subsection \<open>parse_event\<close>

definition count_processed :: "(('w, 'z) ep_scheme, unit) py" where
  "count_processed = seq_py (modify_py (\<lambda>s. s\<lparr>processed := processed s + 1\<rparr>)) (inc EVENTS_PROCESSED 1)"

definition count_error :: "(('w, 'z) ep_scheme, unit) py" where
  "count_error = seq_py (modify_py (\<lambda>s. s\<lparr>errors := errors s + 1\<rparr>)) (inc EVENTS_ERRORS 1)"

definition append_batch :: "action \<Rightarrow> (('w, 'z) ep_scheme, unit) py" where
  "append_batch a = modify_py (\<lambda>s. s\<lparr>batch := batch s @ [a]\<rparr>)"

text \<open>\<open>json.loads(msg_value)\<close>: a message without a value is \<open>None\<close>, a \<open>TypeError\<close>.\<close>

definition loads_value :: "string option \<Rightarrow> exn + json" where
  "loads_value msg_value = (case msg_value of None \<Rightarrow> Inl TypeError | Some b \<Rightarrow> json_loads b)"

text \<open>\<open>event.get(key)\<close>: only a dictionary has the method.\<close>

definition event_get :: "json \<Rightarrow> string \<Rightarrow> exn + json" where
  "event_get event key = (case event of JObj kvs \<Rightarrow> Inr (dict_get kvs key) | _ \<Rightarrow> Inl AttributeError)"

definition parse_rename :: "json \<Rightarrow> (('w, 'z) ep_scheme, unit) py" where
  "parse_rename event =
     bind_py (lift_sum (event_get event ''old_path'')) (\<lambda>old_path.
     bind_py (lift_sum (event_get event ''new_path'')) (\<lambda>new_path.
     if \<not> truthy old_path \<or> \<not> truthy new_path then count_error
     else seq_py (append_batch (Act_rename old_path new_path)) count_processed))"

definition parse_mtime :: "json \<Rightarrow> json \<Rightarrow> (('w, 'z) ep_scheme, unit) py" where
  "parse_mtime event event_type =
     bind_py (lift_sum (event_get event ''path'')) (\<lambda>path.
     seq_py (if truthy path then append_batch (Act_hset path event_type) else return_py ())
       count_processed)"

definition handle_parsed :: "json \<Rightarrow> (('w, 'z) ep_scheme, unit) py" where
  "handle_parsed event =
     bind_py (lift_sum (event_get event ''event'')) (\<lambda>event_type.
     if event_type = JStr ''delete'' then
       seq_py (modify_py (\<lambda>s. s\<lparr>skipped_delete := skipped_delete s + 1\<rparr>))
       (seq_py (modify_py (\<lambda>s. s\<lparr>processed := processed s + 1\<rparr>))
       (seq_py (inc EVENTS_SKIPPED_DELETE 1) (inc EVENTS_PROCESSED 1)))
     else if event_type = JStr ''rename'' then parse_rename event
     else if event_type = JStr ''mtime_change'' then parse_mtime event event_type
     else count_error)"

definition parse_event :: "string option \<Rightarrow> (('w, 'z) ep_scheme, unit) py" where
  "parse_event msg_value =
     bind_py (try_except (bind_py (lift_sum (loads_value msg_value)) (\<lambda>event. return_py (Some event)))
       (\<lambda>e. e = JSONDecodeError)
       (\<lambda>e. seq_py count_error (return_py None)))
     (\<lambda>parsed. case parsed of None \<Rightarrow> return_py () | Some event \<Rightarrow> handle_parsed event)"

subsection \<open>flush_batch and update_metrics\<close>

definition batch_size :: "('w, 'z) ep_scheme \<Rightarrow> int" where
  "batch_size s = int (length (batch s))"

text \<open>The commands one batch entry puts on the pipeline.\<close>

fun action_cmds :: "action \<Rightarrow> redis_cmd list" where
  "action_cmds (Act_hset path event_type) = [Hset ''pending'' path event_type]"
| "action_cmds (Act_rename old new) = [Hdel ''pending'' old, Hset ''pending'' new (JStr ''rename'')]"

definition batch_cmds :: "action list \<Rightarrow> redis_cmd list" where
  "batch_cmds b = concat (map action_cmds b)"

definition flush_batch :: "'w redis_client \<Rightarrow> (('w, 'z) ep_scheme, bool) py" where
  "flush_batch R =
     bind_py (get_py batch) (\<lambda>b.
     if b = [] then return_py True
     else try_except
       (seq_py (in_world (rd_pipeline R (batch_cmds b)))
        (seq_py (modify_py (\<lambda>s. s\<lparr>batch := []\<rparr>)) (return_py True)))
       is_RedisError
       (\<lambda>e. seq_py (inc EVENTS_REDIS_ERRORS (length b))
            (seq_py (modify_py (\<lambda>s. s\<lparr>batch := []\<rparr>)) (return_py False))))"

definition update_metrics :: "'w redis_client \<Rightarrow> (('w, 'z) ep_scheme, unit) py" where
  "update_metrics R =
     try_except
       (bind_py (in_world (rd_hlen R ''pending'')) (\<lambda>n.
        modify_py (\<lambda>s. s\<lparr>prom := prom s @ [Set_gauge PENDING_TOTAL n]\<rparr>)))
       is_RedisError (\<lambda>e. return_py ())"

subsection \<open>Weakest preconditions\<close>

lemma wp_in_world [wp_rules]:
  "wp d (in_world m) Q E s =
     wp d m (\<lambda>x w. Q x (s\<lparr>world := w\<rparr>)) (\<lambda>e w. E e (s\<lparr>world := w\<rparr>)) (world s)"
  by (auto simp: wp_def in_world_def split: option.split sum.split)

lemma wp_inc [wp_rules]: "wp d (inc m n) Q E s = Q () (s\<lparr>prom := prom s @ [Inc m n]\<rparr>)"
  by (simp add: inc_def wp_modify)

lemma wp_count_processed [wp_rules]: "wp d count_processed Q E s =
    Q () (s\<lparr>processed := processed s + 1, prom := prom s @ [Inc EVENTS_PROCESSED 1]\<rparr>)"
  by (simp add: count_processed_def wp_rules)

lemma wp_count_error [wp_rules]: "wp d count_error Q E s =
    Q () (s\<lparr>errors := errors s + 1, prom := prom s @ [Inc EVENTS_ERRORS 1]\<rparr>)"
  by (simp add: count_error_def wp_rules)

lemma wp_append_batch [wp_rules]: "wp d (append_batch a) Q E s = Q () (s\<lparr>batch := batch s @ [a]\<rparr>)"
  by (simp add: append_batch_def wp_modify)

lemmas parse_defs = parse_event_def handle_parsed_def parse_rename_def parse_mtime_def

subsection \<open>Counting\<close>

text \<open>
  The counters and the calls on the Prometheus objects agree, and a skipped deletion is a
  processed event.
\<close>

definition metric_total :: "metric \<Rightarrow> metric_call list \<Rightarrow> int" where
  "metric_total m calls = sum_list (map (\<lambda>c. case c of Inc m' n \<Rightarrow> if m' = m then int n else 0 | _ \<Rightarrow> 0) calls)"

lemma metric_total_simps [simp]:
  "metric_total m [] = 0"
  "metric_total m (calls @ calls') = metric_total m calls + metric_total m calls'"
  "metric_total m (Inc m' n # calls) = (if m' = m then int n else 0) + metric_total m calls"
  "metric_total m (Set_gauge m' k # calls) = metric_total m calls"
  by (simp_all add: metric_total_def)

definition stats_inv :: "('w, 'z) ep_scheme \<Rightarrow> bool" where
  "stats_inv s \<longleftrightarrow>
     metric_total EVENTS_PROCESSED (prom s) = processed s \<and>
     metric_total EVENTS_SKIPPED_DELETE (prom s) = skipped_delete s \<and>
     metric_total EVENTS_ERRORS (prom s) = errors s \<and>
     0 \<le> skipped_delete s \<and> skipped_delete s + batch_size s \<le> processed s \<and> 0 \<le> errors s"

text \<open>What one call of \<open>parse_event\<close> may do to the object.\<close>

definition counted_once :: "('w, 'z) ep_scheme \<Rightarrow> ('w, 'z) ep_scheme \<Rightarrow> bool" where
  "counted_once s s' \<longleftrightarrow>
     processed s' + errors s' = processed s + errors s + 1 \<and> world s' = world s \<and>
     (errors s' \<noteq> errors s \<or> skipped_delete s' \<noteq> skipped_delete s \<longrightarrow> batch s' = batch s) \<and>
     (batch s' = batch s \<or> (\<exists>a. batch s' = batch s @ [a]))"

lemma parse_event_counts:
  "wp False (parse_event m) (\<lambda>_ s'. counted_once s s' \<and> (stats_inv s \<longrightarrow> stats_inv s')) (\<lambda>e s'. s' = s) s"
  by (auto simp: parse_defs event_get_def wp_rules counted_once_def stats_inv_def batch_size_def
      split: sum.split json.split option.split)

subsection \<open>Which messages make parse_event raise\<close>

definition fatal :: "string option \<Rightarrow> exn option" where
  "fatal m = (case loads_value m of
     Inl e \<Rightarrow> if e = JSONDecodeError then None else Some e
   | Inr (JObj kvs) \<Rightarrow> None
   | Inr v \<Rightarrow> Some AttributeError)"

lemma parse_event_fatal: "parse_event m s = Some (Inl e, s') \<longleftrightarrow> fatal m = Some e \<and> s' = s"
  by (auto simp: parse_defs event_get_def fatal_def py_defs count_error_def count_processed_def
      append_batch_def inc_def split: sum.splits json.splits if_splits)

subsection \<open>Events and the pending set\<close>

text \<open>
  The events of the agent, what they mean for the set of pending paths (the table of
  \<open>consumer/README.md\<close>), and the messages that carry them.
\<close>

datatype file_event = Deleted string | Changed string | Renamed string string

fun pending_step :: "file_event \<Rightarrow> string set \<Rightarrow> string set" where
  "pending_step (Deleted p) S = S"
| "pending_step (Changed p) S = insert p S"
| "pending_step (Renamed a b) S = insert b (S - {a})"

definition pending_after :: "file_event list \<Rightarrow> string set \<Rightarrow> string set" where
  "pending_after evs S = foldl (\<lambda>S ev. pending_step ev S) S evs"

fun event_fields :: "file_event \<Rightarrow> (string \<times> json) list \<Rightarrow> bool" where
  "event_fields (Deleted p) kvs = (dict_get kvs ''event'' = JStr ''delete'')"
| "event_fields (Changed p) kvs =
     (dict_get kvs ''event'' = JStr ''mtime_change'' \<and> dict_get kvs ''path'' = JStr p \<and> p \<noteq> [])"
| "event_fields (Renamed a b) kvs =
     (dict_get kvs ''event'' = JStr ''rename'' \<and> dict_get kvs ''old_path'' = JStr a \<and> a \<noteq> [] \<and>
      dict_get kvs ''new_path'' = JStr b \<and> b \<noteq> [])"

definition carries :: "string option \<Rightarrow> file_event \<Rightarrow> bool" where
  "carries m ev = (case loads_value m of Inr (JObj kvs) \<Rightarrow> event_fields ev kvs | _ \<Rightarrow> False)"

fun event_paths :: "file_event \<Rightarrow> string list" where
  "event_paths (Deleted p) = []"
| "event_paths (Changed p) = [p]"
| "event_paths (Renamed a b) = [a, b]"

fun event_actions :: "file_event \<Rightarrow> action list" where
  "event_actions (Deleted p) = []"
| "event_actions (Changed p) = [Act_hset (JStr p) (JStr ''mtime_change'')]"
| "event_actions (Renamed a b) = [Act_rename (JStr a) (JStr b)]"

fun event_cmds :: "file_event \<Rightarrow> db_cmd list" where
  "event_cmds (Deleted p) = []"
| "event_cmds (Changed p) = [Put ''pending'' p ''mtime_change'']"
| "event_cmds (Renamed a b) = [Del ''pending'' a, Put ''pending'' b ''rename'']"

lemma parse_event_carries:
  assumes "carries m ev"
  shows "wp False (parse_event m)
     (\<lambda>_ s'. batch s' = batch s @ event_actions ev \<and> world s' = world s) (\<lambda>_ _. False) s"
proof -
  from assms obtain kvs where "loads_value m = Inr (JObj kvs)" and "event_fields ev kvs"
    by (auto simp: carries_def split: sum.splits json.splits)
  then show ?thesis by (cases ev) (simp_all add: parse_defs event_get_def wp_rules)
qed

lemma parse_events_carry:
  fixes s :: "('w, 'z) ep_scheme"
  assumes "list_all2 carries ms evs"
  shows "wp False (for_py ms parse_event)
     (\<lambda>_ s'. batch s' = batch s @ concat (map event_actions evs) \<and> world s' = world s) (\<lambda>_ _. False) s"
  using assms
proof (induction ms evs arbitrary: s rule: list_all2_induct)
  case Nil
  show ?case by (simp add: wp_rules)
next
  case (Cons m ms ev evs)
  from parse_event_carries [OF Cons.hyps(1), of s] show ?case
    unfolding for_py.simps wp_seq
  proof (rule wp_mono)
    fix s' :: "('w, 'z) ep_scheme"
    assume s': "batch s' = batch s @ event_actions ev \<and> world s' = world s"
    from Cons.IH [of s'] show "wp False (for_py ms parse_event)
        (\<lambda>_ s'. batch s' = batch s @ concat (map event_actions (ev # evs)) \<and> world s' = world s)
        (\<lambda>_ _. False) s'"
      by (rule wp_mono) (use s' in auto)
  qed
qed

lemma batch_cmds_append [simp]: "batch_cmds (a @ b) = batch_cmds a @ batch_cmds b"
  by (simp add: batch_cmds_def)

lemma encode_cmds_append: "encode_cmds fr (xs @ ys) =
    bind_sum (encode_cmds fr xs) (\<lambda>as. bind_sum (encode_cmds fr ys) (\<lambda>bs. Inr (as @ bs)))"
proof (induction xs)
  case Nil
  show ?case by (cases "encode_cmds fr ys") auto
next
  case (Cons x xs)
  then show ?case by (cases "encode_cmd fr x"; cases "encode_cmds fr xs"; cases "encode_cmds fr ys") auto
qed

lemma utf8_ascii [simp]: "utf8_ok False ''mtime_change''" "utf8_ok False ''rename''"
  by (simp_all)

lemma encode_events:
  assumes "\<And>ev p. ev \<in> set evs \<Longrightarrow> p \<in> set (event_paths ev) \<Longrightarrow> utf8_ok False p"
  shows "encode_cmds fr (batch_cmds (concat (map event_actions evs))) = Inr (concat (map event_cmds evs))"
  using assms
proof (induction evs)
  case (Cons ev evs)
  have "encode_cmds fr (batch_cmds (concat (map event_actions evs))) = Inr (concat (map event_cmds evs))"
    by (rule Cons.IH) (use Cons.prems in auto)
  moreover from Cons.prems [of ev]
  have "encode_cmds fr (batch_cmds (event_actions ev)) = Inr (event_cmds ev)"
    by (cases ev) (simp_all add: batch_cmds_def)
  ultimately show ?case by (simp add: encode_cmds_append)
qed (simp add: batch_cmds_def)

lemma pending_events:
  "dom (hashes (db_run (concat (map event_cmds evs)) db) ''pending'') =
     pending_after evs (dom (hashes db ''pending''))"
proof (induction evs arbitrary: db)
  case (Cons ev evs)
  have "dom (hashes (db_run (event_cmds ev) db) ''pending'') = pending_step ev (dom (hashes db ''pending''))"
    by (cases ev) (auto simp: db_put_def)
  with Cons show ?case by (simp add: pending_after_def)
qed (simp add: pending_after_def)

subsection \<open>Flushing\<close>

text \<open>
  The outcome of \<open>flush_batch\<close> against the contract of Redis. The counters are not touched;
  after \<open>True\<close> or \<open>False\<close> the batch is empty; only an exception that is not a Redis error
  (a path with a lone surrogate) leaves it, with nothing sent.
\<close>

definition flush_post ::
  "('w \<Rightarrow> redis_db) \<Rightarrow> (redis_db \<Rightarrow> redis_db \<Rightarrow> bool) \<Rightarrow> (string \<Rightarrow> string) \<Rightarrow>
   ('w, 'z) ep_scheme \<Rightarrow> bool \<Rightarrow> ('w, 'z) ep_scheme \<Rightarrow> bool" where
  "flush_post view rely fr s ok s' \<longleftrightarrow>
     batch s' = [] \<and> processed s' = processed s \<and> errors s' = errors s \<and>
     (\<exists>v. rely (view (world s)) v \<and>
       (case encode_cmds fr (batch_cmds (batch s)) of
          Inr ds \<Rightarrow> view (world s') = db_run ds v \<or> \<not> ok \<and> view (world s') = v
        | Inl e \<Rightarrow> \<not> ok \<and> view (world s') = v))"

context redis_writer
begin

lemma flush_batch_wp:
  "wp False (flush_batch R) (flush_post view rely fr s)
     (\<lambda>e s'. \<not> is_RedisError e \<and> encode_cmds fr (batch_cmds (batch s)) = Inl e \<and>
            batch s' = batch s \<and> rely (view (world s)) (view (world s'))) s"
proof (cases "batch s = []")
  case True
  then show ?thesis using rely_refl
    by (auto simp: flush_batch_def wp_rules flush_post_def batch_cmds_def)
next
  case False
  then show ?thesis
    unfolding flush_batch_def wp_rules if_not_P [OF False] if_P
    by (auto intro!: atomic_wp [OF pipeline] simp: wp_rules pipeline_eff_def write_eff_def flush_post_def
        split: sum.splits)
qed

end

subsection \<open>Example data\<close>

text \<open>Messages as the agent writes them, and an object talking to an empty server.\<close>

definition ex_changed :: string where
  \<open>ex_changed = ''{"ts":17,"event":"mtime_change","path":"/home/s1/u/a","hostname":"n1"}''\<close>

definition ex_renamed :: string where
  \<open>ex_renamed =
     ''{"ts":18,"event":"rename","old_path":"/home/s1/u/a","new_path":"/home/s1/u/b","hostname":"n1"}''\<close>

definition ex_deleted :: string where
  \<open>ex_deleted = ''{"ts":19,"event":"delete","path":"/home/s1/u/b","hostname":"n1"}''\<close>

text \<open>A path that is a JSON boolean.\<close>

definition ex_bad_path :: string where
  \<open>ex_bad_path = ''{"ts":20,"event":"mtime_change","path":true,"hostname":"n1"}''\<close>

definition ex_state :: "mem ep" where
  "ex_state = ep_init mem_empty []"

definition ex_run :: "string list \<Rightarrow> (mem ep, bool) py" where
  "ex_run ms = seq_py (for_py (map Some ms) parse_event) (flush_batch (mem_redis id))"

definition ex_after :: "string list \<Rightarrow> mem ep" where
  "ex_after ms = snd (the (ex_run ms ex_state))"

text \<open>The same batch flushed twice.\<close>

definition ex_parsed :: "mem ep" where
  "ex_parsed = snd (the (parse_event (Some ex_changed) ex_state))"

definition ex_flushed :: "mem ep" where
  "ex_flushed = snd (the (flush_batch (mem_redis id) ex_parsed))"

definition ex_again :: "mem ep" where
  "ex_again = snd (the (flush_batch (mem_redis id) (ex_flushed\<lparr>batch := batch ex_parsed\<rparr>)))"

subsection \<open>Properties\<close>

text \<open>
  C5: a batch of messages that carry events, parsed and then flushed with success, brings the
  set of pending paths from what it is at the moment of the write to what the events say:
  a change adds its path, a rename replaces the old path by the new one, a deletion is
  ignored; later events win. Other clients may act on Redis at any time before the write.
\<close>

theorem consumer_tracks_events:
  assumes redis: "redis_writer view rely R fr"
    and msgs: "list_all2 carries ms evs"
    and paths: "\<forall>ev \<in> set evs. \<forall>p \<in> set (event_paths ev). utf8_ok False p"
    and empty: "batch s = []"
    and run: "seq_py (for_py ms parse_event) (flush_batch R) s = Some (Inr True, s')"
  shows "batch s' = [] \<and> (\<exists>v. rely (view (world s)) v \<and>
    dom (hashes (view (world s')) ''pending'') = pending_after evs (dom (hashes v ''pending'')))"
proof -
  let ?acts = "concat (map event_actions evs)"
  have "wp False (seq_py (for_py ms parse_event) (flush_batch R))
      (\<lambda>ok s'. \<exists>t. batch t = ?acts \<and> world t = world s \<and> flush_post view rely fr t ok s') (\<lambda>_ _. True) s"
    unfolding wp_seq
  proof (rule wp_mono [OF parse_events_carry [OF msgs]])
    fix t
    assume "batch t = batch s @ ?acts \<and> world t = world s"
    with empty redis_writer.flush_batch_wp [OF redis, of t]
    show "wp False (flush_batch R)
        (\<lambda>ok s'. \<exists>t. batch t = ?acts \<and> world t = world s \<and> flush_post view rely fr t ok s') (\<lambda>_ _. True) t"
      by (auto elim!: wp_mono)
  qed simp
  from wp_returnD [OF this run] obtain t where t: "batch t = ?acts" "world t = world s"
    and post: "flush_post view rely fr t True s'" by auto
  have "encode_cmds fr (batch_cmds (batch t)) = Inr (concat (map event_cmds evs))"
    unfolding t(1) using paths by (intro encode_events) auto
  with post t show ?thesis by (auto simp: flush_post_def pending_events)
qed

theorem consumer_tracks_events_witness:
  "dom (hashes (mem_view (world (ex_after [ex_changed, ex_renamed, ex_deleted]))) ''pending'') = {''/home/s1/u/b''}"
proof -
  let ?evs = "[Changed ''/home/s1/u/a'', Renamed ''/home/s1/u/a'' ''/home/s1/u/b'', Deleted ''/home/s1/u/b'']"
  have run: "map_option fst (ex_run [ex_changed, ex_renamed, ex_deleted] ex_state) = Some (Inr True)"
    by code_simp
  have msgs: "list_all2 carries (map Some [ex_changed, ex_renamed, ex_deleted]) ?evs"
    by code_simp
  have paths: "\<forall>ev \<in> set ?evs. \<forall>p \<in> set (event_paths ev). utf8_ok False p"
    by code_simp
  have empty: "batch ex_state = []"
    by (simp add: ex_state_def ep_init_def)
  have "dom (hashes (mem_view (world (ex_after [ex_changed, ex_renamed, ex_deleted]))) ''pending'') =
      pending_after ?evs (dom (hashes (mem_view (world ex_state)) ''pending''))"
    using consumer_tracks_events [OF mem.redis_writer_axioms msgs paths empty
        run_outcome [OF run, unfolded ex_run_def]]
    by (simp add: ex_after_def ex_run_def)
  then show ?thesis
    by (simp add: pending_after_def ex_state_def ep_init_def mem_empty_def)
qed

text \<open>
  C20: every message that \<open>parse_event\<close> returns from is counted exactly once, as processed or as
  an error; only a processed message that is not a deletion adds to the batch, at most one
  entry; the counters stay equal to the totals of the Prometheus counters; and a message it
  raises on leaves the object as it was.
\<close>

theorem parse_event_counts_once:
  "\<exists>r s'. parse_event m s = Some (r, s') \<and>
     (case r of Inr _ \<Rightarrow> counted_once s s' \<and> (stats_inv s \<longrightarrow> stats_inv s') | Inl e \<Rightarrow> s' = s)"
  using parse_event_counts [of m s] by (auto simp: wp_def split: option.splits sum.splits)

theorem parse_event_counts_once_witness:
  "\<exists>s'. parse_event (Some ex_deleted) ex_state = Some (Inr (), s') \<and> stats_inv s' \<and> counted_once ex_state s'"
proof -
  have run: "map_option fst (parse_event (Some ex_deleted) ex_state) = Some (Inr ())"
    by code_simp
  have "stats_inv ex_state"
    by (simp add: ex_state_def ep_init_def stats_inv_def batch_size_def)
  with run_outcome [OF run] parse_event_counts_once [of "Some ex_deleted" ex_state] show ?thesis by auto
qed


text \<open>
  C22: \<open>flush_batch\<close> always returns or raises. \<open>True\<close> means that every command of the batch was
  applied, in order; \<open>False\<close> that they were applied as a whole or not at all; in both cases
  the batch is empty afterwards. It raises only when a path cannot be encoded, and then
  nothing was sent and the batch is kept.
\<close>

theorem flush_batch_outcome:
  assumes "redis_writer view rely R fr"
  shows "\<exists>r s'. flush_batch R s = Some (r, s') \<and>
    (case r of Inr ok \<Rightarrow> flush_post view rely fr s ok s'
     | Inl e \<Rightarrow> \<not> is_RedisError e \<and> encode_cmds fr (batch_cmds (batch s)) = Inl e \<and>
          batch s' = batch s \<and> rely (view (world s)) (view (world s')))"
  using redis_writer.flush_batch_wp [OF assms, of s]
  by (auto simp: wp_def split: option.splits sum.splits)

theorem flush_batch_outcome_witness:
  "\<exists>r s'. flush_batch (mem_redis id) (ex_state\<lparr>batch := [Act_hset (JStr ''/home/s1/u/a'') (JStr ''mtime_change'')]\<rparr>) =
     Some (r, s') \<and> r = Inr True \<and> batch s' = []"
proof -
  let ?s = "ex_state\<lparr>batch := [Act_hset (JStr ''/home/s1/u/a'') (JStr ''mtime_change'')]\<rparr>"
  have run: "map_option fst (flush_batch (mem_redis id) ?s) = Some (Inr True)"
    by code_simp
  from run_outcome [OF run] flush_batch_outcome [OF mem.redis_writer_axioms, of id ?s] show ?thesis
    by (auto simp: flush_post_def)
qed



text \<open>
  One message whose path is a JSON boolean, array or object makes the whole batch fail:
  \<open>flush_batch\<close> gives \<open>False\<close>, none of the other events is written, and the batch is dropped.
\<close>

theorem flush_batch_bad_path_drops_batch:
  assumes redis: "redis_writer view rely R fr"
    and bad: "encode_cmds fr (batch_cmds (batch s)) = Inl RedisDataError"
  shows "\<exists>s'. flush_batch R s = Some (Inr False, s') \<and> batch s' = [] \<and>
    rely (view (world s)) (view (world s'))"
proof -
  have "wp False (flush_batch R) (\<lambda>ok s'. \<not> ok \<and> batch s' = [] \<and> rely (view (world s)) (view (world s')))
      (\<lambda>_ _. False) s"
    by (rule wp_mono [OF redis_writer.flush_batch_wp [OF redis]]) (use bad in \<open>auto simp: flush_post_def\<close>)
  from wp_totalD [OF this] show ?thesis by auto
qed

theorem flush_batch_bad_path_drops_batch_witness:
  "\<exists>s'. flush_batch (mem_redis id) (snd (the (for_py (map Some [ex_changed, ex_bad_path]) parse_event ex_state))) =
     Some (Inr False, s') \<and> batch s' = [] \<and> hashes (mem_view (world s')) ''pending'' = Map.empty"
proof -
  let ?s = "snd (the (for_py (map Some [ex_changed, ex_bad_path]) parse_event ex_state))"
  have "map_sum (\<lambda>e. e) (\<lambda>_. ()) (encode_cmds id (batch_cmds (batch ?s))) = Inl RedisDataError"
    by code_simp
  then have bad: "encode_cmds id (batch_cmds (batch ?s)) = Inl RedisDataError"
    by (cases "encode_cmds id (batch_cmds (batch ?s))") simp_all
  have "m_hash (world ?s) ''pending'' = []" by code_simp
  with flush_batch_bad_path_drops_batch [OF mem.redis_writer_axioms bad] show ?thesis
    by (metis hashes_mem_view map_of.simps(1))
qed

end
