(* ===== verification/ConsumerMain.thy ===== *)
theory ConsumerMain
  imports EventProcessor Complex_Main "HOL-Library.Sublist"
begin

text \<open>
  \<open>consumer/main.py\<close>: start-up with its endless reconnection loops, the poll loop, and the
  clean-up on exit. Kafka, the clock, the metrics server and the \<open>running\<close> flag (which a
  signal handler clears) are parameters: records of calls on the outside world. Times are
  rational numbers of seconds. Log calls and the logging set-up are left out.
\<close>

subsection \<open>Parameters and state\<close>

datatype kafka_code = PARTITION_EOF | ALL_BROKERS_DOWN | TRANSPORT | Other_code int

record kafka_msg =
  msg_error :: "kafka_code option"
  msg_value :: "string option"

record 'w kafka =
  k_new :: "cfgval \<Rightarrow> cfgval \<Rightarrow> ('w, unit) py"
  k_list_topics :: "rat \<Rightarrow> ('w, nat) py"
  k_subscribe :: "cfgval \<Rightarrow> ('w, unit) py"
  k_poll :: "rat \<Rightarrow> ('w, kafka_msg option) py"
  k_commit :: "('w, unit) py"
  k_close :: "('w, unit) py"

record 'w host =
  h_time :: "('w, rat) py"
  h_sleep :: "rat \<Rightarrow> ('w, unit) py"
  h_running :: "('w, bool) py"
  h_start_http_server :: "cfgval \<Rightarrow> ('w, unit) py"

record 'w daemon = "'w ep" +
  last_log_count :: int
  last_metrics_time :: rat
  batch_start_time :: rat
  redis_down :: bool

definition BATCH_SIZE :: int where "BATCH_SIZE = 100"
definition BATCH_TIMEOUT :: rat where "BATCH_TIMEOUT = 5"
definition REDIS_RETRY_INTERVAL :: rat where "REDIS_RETRY_INTERVAL = 5"
definition KAFKA_CONNECT_TIMEOUT :: rat where "KAFKA_CONNECT_TIMEOUT = 30"
definition KAFKA_CONNECT_RETRY :: rat where "KAFKA_CONNECT_RETRY = 5"

subsection \<open>Start-up\<close>

text \<open>The body of the loop in \<open>connect_redis\<close>: \<open>True\<close> when it returns the client.\<close>

definition try_connect :: "'w redis_client \<Rightarrow> 'w host \<Rightarrow> cfgval \<Rightarrow> ('w, bool) py" where
  "try_connect R H url =
     try_except (seq_py (rd_from_url R url) (seq_py (rd_ping R) (return_py True)))
       is_connection_error
       (\<lambda>e. seq_py (h_sleep H REDIS_RETRY_INTERVAL) (return_py False))"

definition connect_loop :: "'w redis_client \<Rightarrow> 'w host \<Rightarrow> cfgval \<Rightarrow> ('w, unit) py" where
  "connect_loop R H url = until_py (try_connect R H url)"

definition connect_redis :: "'w redis_client \<Rightarrow> 'w host \<Rightarrow> config \<Rightarrow> ('w, unit) py" where
  "connect_redis R H cfg =
     bind_py (lift_sum (cfg_item cfg ''db'' ''redis_url'')) (\<lambda>url. connect_loop R H url)"

text \<open>The callback librdkafka invokes on an error.\<close>

definition error_cb :: "kafka_code \<Rightarrow> (('w, 'z) ep_scheme, unit) py" where
  "error_cb code =
     (if code = ALL_BROKERS_DOWN then inc (KAFKA_ERRORS ''all_brokers_down'') 1
      else if code = TRANSPORT then inc (KAFKA_ERRORS ''transport'') 1
      else inc (KAFKA_ERRORS ''other'') 1)"

definition try_kafka :: "'w kafka \<Rightarrow> 'w host \<Rightarrow> config \<Rightarrow> (('w, 'z) ep_scheme, bool) py" where
  "try_kafka K H cfg =
     bind_py (lift_sum (cfg_item cfg ''kafka'' ''brokers'')) (\<lambda>brokers.
     bind_py (lift_sum (cfg_item cfg ''kafka'' ''group_id'')) (\<lambda>group_id.
     seq_py (in_world (k_new K brokers group_id))
     (try_except
       (bind_py (in_world (k_list_topics K KAFKA_CONNECT_TIMEOUT)) (\<lambda>broker_count. return_py True))
       (\<lambda>e. e = KafkaException)
       (\<lambda>e. seq_py (in_world (k_close K))
            (seq_py (inc (KAFKA_ERRORS ''connect_failed'') 1)
            (seq_py (in_world (h_sleep H KAFKA_CONNECT_RETRY)) (return_py False)))))))"

definition create_kafka_consumer ::
  "'w kafka \<Rightarrow> 'w host \<Rightarrow> config \<Rightarrow> (('w, 'z) ep_scheme, unit) py" where
  "create_kafka_consumer K H cfg = until_py (try_kafka K H cfg)"

subsection \<open>The poll loop\<close>

definition safe_commit :: "'w kafka \<Rightarrow> (('w, 'z) ep_scheme, unit) py" where
  "safe_commit K =
     try_except (in_world (k_commit K)) (\<lambda>e. e = KafkaException) (\<lambda>e. inc KAFKA_COMMIT_ERRORS 1)"

definition set_redis_down :: "bool \<Rightarrow> ('w daemon, unit) py" where
  "set_redis_down b = modify_py (\<lambda>s. s\<lparr>redis_down := b\<rparr>)"

text \<open>The gauge, every ten seconds.\<close>

definition refresh_gauge :: "'w redis_client \<Rightarrow> rat \<Rightarrow> ('w daemon, unit) py" where
  "refresh_gauge R now =
     bind_py (get_py last_metrics_time) (\<lambda>last.
     if now - last \<ge> 10
     then seq_py (update_metrics R) (modify_py (\<lambda>s. s\<lparr>last_metrics_time := now\<rparr>))
     else return_py ())"

text \<open>Reconnection while Redis is down: \<open>False\<close> when the loop continues without the message.\<close>

definition check_redis :: "'w redis_client \<Rightarrow> 'w host \<Rightarrow> ('w daemon, bool) py" where
  "check_redis R H =
     bind_py (get_py redis_down) (\<lambda>down.
     if down then
       try_except (seq_py (in_world (rd_ping R)) (seq_py (set_redis_down False) (return_py True)))
         is_RedisError (\<lambda>e. seq_py (in_world (h_sleep H 1)) (return_py False))
     else return_py True)"

text \<open>Flush and commit; \<open>stamp\<close> gives the new start of the batch after a success.\<close>

definition flush_and_commit ::
  "'w redis_client \<Rightarrow> 'w kafka \<Rightarrow> ('w daemon, rat) py \<Rightarrow> ('w daemon, unit) py" where
  "flush_and_commit R K stamp =
     bind_py (flush_batch R) (\<lambda>ok.
     if ok then seq_py (safe_commit K)
         (bind_py stamp (\<lambda>t. modify_py (\<lambda>s. s\<lparr>batch_start_time := t\<rparr>)))
     else set_redis_down True)"

definition on_idle :: "'w redis_client \<Rightarrow> 'w kafka \<Rightarrow> rat \<Rightarrow> ('w daemon, unit) py" where
  "on_idle R K now =
     bind_py (get_py (\<lambda>s. batch_size s > 0 \<and> now - batch_start_time s \<ge> BATCH_TIMEOUT)) (\<lambda>due.
     if due then flush_and_commit R K (return_py now) else return_py ())"

text \<open>The report every thousand events: it asks Redis for the number of pending paths.\<close>

definition report :: "'w redis_client \<Rightarrow> 'w host \<Rightarrow> ('w daemon, unit) py" where
  "report R H =
     bind_py (get_py (\<lambda>s. processed s - last_log_count s \<ge> 1000)) (\<lambda>due.
     if due then
       seq_py (modify_py (\<lambda>s. s\<lparr>last_log_count := processed s\<rparr>))
       (seq_py (update_metrics R)
       (bind_py (in_world (h_time H)) (\<lambda>t.
        seq_py (modify_py (\<lambda>s. s\<lparr>last_metrics_time := t\<rparr>))
        (bind_py (get_py redis_down) (\<lambda>down.
         if down then return_py () else bind_py (in_world (rd_hlen R ''pending'')) (\<lambda>n. return_py ()))))))
     else return_py ())"

definition on_message :: "'w redis_client \<Rightarrow> 'w kafka \<Rightarrow> 'w host \<Rightarrow> kafka_msg \<Rightarrow> ('w daemon, unit) py" where
  "on_message R K H msg =
     seq_py (parse_event (msg_value msg))
     (seq_py (bind_py (get_py (\<lambda>s. batch_size s \<ge> BATCH_SIZE)) (\<lambda>full.
        if full then flush_and_commit R K (in_world (h_time H)) else return_py ()))
      (report R H))"

definition on_error_msg :: "kafka_code \<Rightarrow> ('w daemon, unit) py" where
  "on_error_msg code =
     (if code = PARTITION_EOF then return_py () else inc (KAFKA_ERRORS ''message'') 1)"

definition dispatch ::
  "'w redis_client \<Rightarrow> 'w kafka \<Rightarrow> 'w host \<Rightarrow> rat \<Rightarrow> kafka_msg option \<Rightarrow> ('w daemon, unit) py" where
  "dispatch R K H now msg = (case msg of
     None \<Rightarrow> on_idle R K now
   | Some m \<Rightarrow> (case msg_error m of Some code \<Rightarrow> on_error_msg code | None \<Rightarrow> on_message R K H m))"

definition main_iter :: "'w redis_client \<Rightarrow> 'w kafka \<Rightarrow> 'w host \<Rightarrow> ('w daemon, unit) py" where
  "main_iter R K H =
     bind_py (in_world (k_poll K 1)) (\<lambda>msg.
     bind_py (in_world (h_time H)) (\<lambda>now.
     seq_py (refresh_gauge R now)
     (bind_py (check_redis R H) (\<lambda>go_on. if \<not> go_on then return_py () else dispatch R K H now msg))))"

definition main_loop :: "'w redis_client \<Rightarrow> 'w kafka \<Rightarrow> 'w host \<Rightarrow> ('w daemon, unit) py" where
  "main_loop R K H = while_py (in_world (h_running H)) (main_iter R K H)"

definition shutdown :: "'w redis_client \<Rightarrow> 'w kafka \<Rightarrow> ('w daemon, unit) py" where
  "shutdown R K =
     seq_py (bind_py (get_py (\<lambda>s. batch_size s > 0)) (\<lambda>some.
       if some then bind_py (flush_batch R) (\<lambda>ok. if ok then safe_commit K else return_py ())
       else return_py ()))
     (in_world (k_close K))"

text \<open>\<open>EventProcessor(r)\<close> and the loop variables.\<close>

definition start_daemon :: "rat \<Rightarrow> rat \<Rightarrow> 'w daemon \<Rightarrow> 'w daemon" where
  "start_daemon t1 t2 s =
     s\<lparr>processed := 0, skipped_delete := 0, errors := 0, batch := [],
       last_log_count := 0, last_metrics_time := t1, batch_start_time := t2, redis_down := False\<rparr>"

definition consumer_main ::
  "'w redis_client \<Rightarrow> 'w kafka \<Rightarrow> 'w host \<Rightarrow> config \<Rightarrow> ('w daemon, unit) py" where
  "consumer_main R K H cfg =
     seq_py (in_world (connect_redis R H cfg))
     (bind_py (in_world (rd_hlen R ''pending'')) (\<lambda>n.
      seq_py (in_world (h_start_http_server H (cfg_get_get cfg ''metrics'' ''port'' (CInt 9101))))
      (seq_py (create_kafka_consumer K H cfg)
      (bind_py (lift_sum (cfg_item cfg ''kafka'' ''topic'')) (\<lambda>topic.
       seq_py (in_world (k_subscribe K topic))
       (bind_py (in_world (h_time H)) (\<lambda>t1.
        bind_py (in_world (h_time H)) (\<lambda>t2.
        seq_py (modify_py (start_daemon t1 t2))
          (try_finally (main_loop R K H) (shutdown R K))))))))))"

end
