(* ===== verification/ConsumerLoop.thy ===== *)
theory ConsumerLoop
  imports ConsumerMain
begin

text \<open>
  What the poll loop of \<open>consumer/main.py\<close> does to the event stream, as a state machine: which
  messages Kafka has delivered and how many of them are committed, which commands Redis has
  applied, which wait in the batch. The loop is shown to simulate the machine, and the
  delivery guarantees are invariants of the machine.
\<close>

subsection \<open>The machine\<close>

text \<open>What a message adds to the batch.\<close>

definition message_actions :: "string option \<Rightarrow> action list" where
  "message_actions m = (case loads_value m of
     Inr (JObj kvs) \<Rightarrow>
       (let ty = dict_get kvs ''event''; old = dict_get kvs ''old_path'';
            new = dict_get kvs ''new_path''; path = dict_get kvs ''path''
        in if ty = JStr ''rename'' then (if truthy old \<and> truthy new then [Act_rename old new] else [])
           else if ty = JStr ''mtime_change'' then (if truthy path then [Act_hset path ty] else [])
           else [])
   | _ \<Rightarrow> [])"

definition msg_cmds :: "kafka_msg \<Rightarrow> redis_cmd list" where
  "msg_cmds m = batch_cmds (message_actions (msg_value m))"

definition cmds_of :: "kafka_msg list \<Rightarrow> redis_cmd list" where
  "cmds_of ms = concat (map msg_cmds ms)"

lemma cmds_of_simps [simp]: "cmds_of [] = []" "cmds_of (ms @ ns) = cmds_of ms @ cmds_of ns"
    "cmds_of (m # ms) = msg_cmds m @ cmds_of ms"
  by (simp_all add: cmds_of_def)

text \<open>
  The history an observer outside the daemon sees, and the machine state: with it, the message
  polled and not yet parsed, and the commands of the batch.
\<close>

record history =
  delivered :: "kafka_msg list"
  committed :: nat
  applied :: "redis_cmd list"

record xfer = history +
  inflight :: "kafka_msg list"
  queued :: "redis_cmd list"

text \<open>
  The steps. With \<open>lossless\<close> no flush fails and a polled message is set aside only when it
  carries nothing for Redis.
\<close>

inductive xfer_step :: "bool \<Rightarrow> xfer \<Rightarrow> xfer \<Rightarrow> bool" for lossless :: bool where
  poll: "inflight x = [] \<Longrightarrow>
     xfer_step lossless x (x\<lparr>delivered := delivered x @ [m], inflight := [m]\<rparr>)"
| parse: "inflight x = [m] \<Longrightarrow>
     xfer_step lossless x (x\<lparr>inflight := [], queued := queued x @ msg_cmds m\<rparr>)"
| set_aside: "(lossless \<Longrightarrow> cmds_of (inflight x) = []) \<Longrightarrow> xfer_step lossless x (x\<lparr>inflight := []\<rparr>)"
| flush_ok: "xfer_step lossless x (x\<lparr>queued := [], applied := applied x @ queued x\<rparr>)"
| flush_lost: "\<not> lossless \<Longrightarrow> xfer_step lossless x (x\<lparr>queued := []\<rparr>)"
| commit: "inflight x = [] \<Longrightarrow> queued x = [] \<Longrightarrow>
     xfer_step lossless x (x\<lparr>committed := length (delivered x)\<rparr>)"

abbreviation xfer_reach :: "bool \<Rightarrow> xfer \<Rightarrow> xfer \<Rightarrow> bool" where
  "xfer_reach lossless \<equiv> (xfer_step lossless)\<^sup>*\<^sup>*"

subsection \<open>Invariants of the machine\<close>

text \<open>
  Without a failure every delivered message is applied, queued or in flight, in order, and
  what is committed is applied.
\<close>

definition exact_inv :: "xfer \<Rightarrow> bool" where
  "exact_inv x \<longleftrightarrow> applied x @ queued x @ cmds_of (inflight x) = cmds_of (delivered x) \<and>
     committed x \<le> length (delivered x) \<and> prefix (cmds_of (take (committed x) (delivered x))) (applied x)"

text \<open>Whatever fails, nothing is applied that was not delivered, and the order is kept.\<close>

definition order_inv :: "xfer \<Rightarrow> bool" where
  "order_inv x \<longleftrightarrow> subseq (applied x @ queued x @ cmds_of (inflight x)) (cmds_of (delivered x)) \<and>
     committed x \<le> length (delivered x)"

lemma exact_inv_step: "xfer_step True x y \<Longrightarrow> exact_inv x \<Longrightarrow> exact_inv y"
  by (induction rule: xfer_step.induct) (auto simp: exact_inv_def prefix_def)

lemma exact_inv_reach: "xfer_reach True x y \<Longrightarrow> exact_inv x \<Longrightarrow> exact_inv y"
  by (induction rule: rtranclp_induct) (auto intro: exact_inv_step)

lemma subseq_drop_middle:
  assumes "subseq (a @ b @ c) d"
  shows "subseq (a @ c) d"
proof -
  have "subseq (a @ c) (a @ b @ c)" by (intro list_emb_append_mono list_emb_append2 subseq_order.refl)
  then show ?thesis using assms by (rule subseq_order.trans)
qed

lemma subseq_snoc_both: "subseq a b \<Longrightarrow> subseq (a @ c) (b @ c)"
  by (simp add: list_emb_append_mono)

lemma order_inv_step: "xfer_step b x y \<Longrightarrow> order_inv x \<Longrightarrow> order_inv y"
proof (induction rule: xfer_step.induct)
  case (poll x m)
  then show ?case
    using subseq_snoc_both [of "applied x @ queued x" "cmds_of (delivered x)" "msg_cmds m"]
    by (auto simp: order_inv_def)
next
  case (set_aside x)
  then show ?case using subseq_drop_middle [of "applied x @ queued x" "cmds_of (inflight x)" "[]"]
    by (auto simp: order_inv_def)
next
  case (flush_lost x)
  then show ?case using subseq_drop_middle [of "applied x" "queued x"] by (auto simp: order_inv_def)
qed (auto simp: order_inv_def)

lemma order_inv_reach: "xfer_reach b x y \<Longrightarrow> order_inv x \<Longrightarrow> order_inv y"
  by (induction rule: rtranclp_induct) (auto intro: order_inv_step)

subsection \<open>What the loop relies on\<close>

text \<open>
  The calls the loop makes, by what they do to the history. \<open>poll\<close> delivers the next message;
  a synchronous commit stores the position after the last delivered message, and one that
  fails stored it or not; a pipeline is applied as a whole or not at all, an exception other
  than a Redis error comes from encoding, before anything is sent. With \<open>lossless\<close>, Redis
  refuses only what cannot be encoded, and no message carries a value it refuses.
\<close>

definition cmds_ok :: "(string \<Rightarrow> string) \<Rightarrow> redis_cmd list \<Rightarrow> bool" where
  "cmds_ok fr cmds \<longleftrightarrow> encode_cmds fr cmds \<noteq> Inl RedisDataError"

definition poll_eff ::
  "bool \<Rightarrow> (string \<Rightarrow> string) \<Rightarrow> history \<Rightarrow> exn + kafka_msg option \<Rightarrow> history \<Rightarrow> bool" where
  "poll_eff lossless fr h r h' = (case r of
     Inr (Some m) \<Rightarrow>
       (if msg_error m = None
        then h' = h\<lparr>delivered := delivered h @ [m]\<rparr> \<and> (lossless \<longrightarrow> cmds_ok fr (msg_cmds m))
        else h' = h)
   | _ \<Rightarrow> h' = h)"

definition commit_eff :: "history \<Rightarrow> exn + unit \<Rightarrow> history \<Rightarrow> bool" where
  "commit_eff h r h' \<longleftrightarrow> h' = h\<lparr>committed := length (delivered h)\<rparr> \<or> h' = h \<and> r \<noteq> Inr ()"

definition pipe_eff ::
  "bool \<Rightarrow> (string \<Rightarrow> string) \<Rightarrow> redis_cmd list \<Rightarrow> history \<Rightarrow> exn + unit \<Rightarrow> history \<Rightarrow> bool" where
  "pipe_eff lossless fr cmds h r h' = (case r of
     Inr _ \<Rightarrow> h' = h\<lparr>applied := applied h @ cmds\<rparr>
   | Inl e \<Rightarrow> (h' = h \<or> is_RedisError e \<and> h' = h\<lparr>applied := applied h @ cmds\<rparr>) \<and>
       (lossless \<and> cmds_ok fr cmds \<longrightarrow> \<not> is_RedisError e))"

locale consumer_env =
  fixes hist :: "'w \<Rightarrow> history" and R :: "'w redis_client" and K :: "'w kafka" and H :: "'w host"
    and fr :: "string \<Rightarrow> string" and lossless :: bool
  assumes poll: "atomic hist (=) (poll_eff lossless fr) (k_poll K t)"
    and commit: "atomic hist (=) commit_eff (k_commit K)"
    and pipeline: "atomic hist (=) (pipe_eff lossless fr cmds) (rd_pipeline R cmds)"
    and ping: "atomic hist (=) (read_eff (\<lambda>_ _. True)) (rd_ping R)"
    and hlen: "atomic hist (=) (read_eff (\<lambda>_ _. True)) (rd_hlen R key)"
    and time: "atomic hist (=) (\<lambda>h r h'. h' = h \<and> (\<exists>t. r = Inr t)) (h_time H)"
    and sleep: "quiet hist (=) (h_sleep H secs)"
    and running: "atomic hist (=) (\<lambda>h r h'. h' = h \<and> (\<exists>b. r = Inr b)) (h_running H)"
    and close: "quiet hist (=) (k_close K)"

lemma cmds_ok_append: "cmds_ok fr a \<Longrightarrow> cmds_ok fr b \<Longrightarrow> cmds_ok fr (a @ b)"
  unfolding cmds_ok_def encode_cmds_append
  by (cases "encode_cmds fr a"; cases "encode_cmds fr b") auto

subsection \<open>The loop simulates the machine\<close>

definition xst :: "('w \<Rightarrow> history) \<Rightarrow> kafka_msg list \<Rightarrow> ('w, 'z) ep_scheme \<Rightarrow> xfer" where
  "xst hist infl s = history.extend (hist (world s)) \<lparr>inflight = infl, queued = batch_cmds (batch s)\<rparr>"

lemma xst_sel [simp]:
  "delivered (xst hist infl s) = delivered (hist (world s))"
  "committed (xst hist infl s) = committed (hist (world s))"
  "applied (xst hist infl s) = applied (hist (world s))"
  "inflight (xst hist infl s) = infl" "queued (xst hist infl s) = batch_cmds (batch s)"
  by (simp_all add: xst_def history.extend_def)

text \<open>A machine step, read off the fields it changes.\<close>

lemma xfer_eqI: "delivered x = delivered y \<Longrightarrow> committed x = committed y \<Longrightarrow> applied x = applied y \<Longrightarrow>
    inflight x = inflight y \<Longrightarrow> queued x = queued y \<Longrightarrow> x = (y :: xfer)"
  by simp

lemma reach_step: "xfer_reach b x0 x \<Longrightarrow> xfer_step b x y' \<Longrightarrow> y' = y \<Longrightarrow> xfer_reach b x0 y"
  by auto

text \<open>What \<open>parse_event\<close> does to the batch.\<close>

lemma parse_event_actions:
  "wp False (parse_event m)
     (\<lambda>_ s'. batch s' = batch s @ message_actions m \<and> world s' = world s \<and> ep.more s' = ep.more s)
     (\<lambda>_ s'. s' = s \<and> message_actions m = []) s"
  by (auto simp: parse_defs wp_rules message_actions_def event_get_def Let_def split: sum.split json.split)

text \<open>
  The invariant: from \<open>x0\<close> the machine reaches what the daemon's state shows, with the messages
  \<open>infl\<close> polled and not parsed.
\<close>

definition loop_inv ::
  "bool \<Rightarrow> (string \<Rightarrow> string) \<Rightarrow> ('w \<Rightarrow> history) \<Rightarrow> xfer \<Rightarrow> kafka_msg list \<Rightarrow> 'w daemon \<Rightarrow> bool" where
  "loop_inv lossless fr hist x0 infl s \<longleftrightarrow> xfer_reach lossless x0 (xst hist infl s) \<and>
     (lossless \<longrightarrow> \<not> redis_down s \<and> cmds_ok fr (batch_cmds (batch s)))"

lemma loop_inv_cong: "loop_inv b fr hist x0 infl s \<Longrightarrow> hist (world s') = hist (world s) \<Longrightarrow> batch s' = batch s \<Longrightarrow>
    redis_down s' = redis_down s \<Longrightarrow> loop_inv b fr hist x0 infl s'"
  by (simp add: loop_inv_def xst_def)

lemma loop_inv_frame [simp]:
  "loop_inv b fr hist x0 infl (s\<lparr>batch_start_time := t\<rparr>) = loop_inv b fr hist x0 infl s"
  "loop_inv b fr hist x0 infl (s\<lparr>last_metrics_time := t\<rparr>) = loop_inv b fr hist x0 infl s"
  "loop_inv b fr hist x0 infl (s\<lparr>last_log_count := n\<rparr>) = loop_inv b fr hist x0 infl s"
  "loop_inv b fr hist x0 infl (s\<lparr>prom := ms\<rparr>) = loop_inv b fr hist x0 infl s"
  by (simp_all add: loop_inv_def xst_def)

lemma loop_inv_world: "hist w = hist (world s) \<Longrightarrow>
    loop_inv b fr hist x0 infl (s\<lparr>world := w\<rparr>) = loop_inv b fr hist x0 infl s"
  by (simp add: loop_inv_def xst_def)

lemma loop_inv_drop: "loop_inv False fr hist x0 infl s \<Longrightarrow> loop_inv False fr hist x0 [] s"
  using reach_step [OF _ xfer_step.set_aside, of False x0 "xst hist infl s" "xst hist [] s"]
  by (simp add: loop_inv_def)

context consumer_env
begin

lemma flush_inv:
  assumes "loop_inv lossless fr hist x0 [] s"
  shows "wp False (flush_batch R)
     (\<lambda>ok s'. loop_inv lossless fr hist x0 [] s' \<and> batch s' = [] \<and> (lossless \<longrightarrow> ok))
     (\<lambda>e. loop_inv lossless fr hist x0 []) s"
proof -
  let ?x = "xst hist [] s"
  have inv: "xfer_reach lossless x0 ?x" "lossless \<longrightarrow> \<not> redis_down s \<and> cmds_ok fr (batch_cmds (batch s))"
    using assms by (auto simp: loop_inv_def)
  have sent: "loop_inv lossless fr hist x0 [] s'"
    if "hist (world s') = (hist (world s))\<lparr>applied := applied (hist (world s)) @ batch_cmds (batch s)\<rparr>"
      and "batch s' = []" and "redis_down s' = redis_down s" for s' :: "'w daemon"
    using reach_step [OF inv(1) xfer_step.flush_ok, of "xst hist [] s'"] that inv(2)
    by (simp add: loop_inv_def batch_cmds_def cmds_ok_def)
  have lost: "loop_inv lossless fr hist x0 [] s'"
    if "hist (world s') = hist (world s)" and "batch s' = []" and "\<not> lossless" for s' :: "'w daemon"
    using reach_step [OF inv(1) xfer_step.flush_lost, of "xst hist [] s'"] that
    by (simp add: loop_inv_def batch_cmds_def)
  note kept = loop_inv_cong [OF assms]
  show ?thesis
  proof (cases "batch s = []")
    case True
    with assms show ?thesis by (simp add: flush_batch_def wp_rules)
  next
    case False
    then show ?thesis
      unfolding flush_batch_def wp_rules if_not_P [OF False] if_P
      by (intro atomic_wp [OF pipeline])
         (use inv(2) in \<open>auto simp: pipe_eff_def wp_rules intro: sent lost kept\<close>)
  qed
qed

text \<open>With nothing queued or in flight, a commit is a machine step.\<close>

lemma commit_inv:
  assumes "loop_inv lossless fr hist x0 [] s" and "batch s = []"
  shows "wp False (safe_commit K) (\<lambda>_. loop_inv lossless fr hist x0 []) (\<lambda>_. loop_inv lossless fr hist x0 []) s"
proof -
  have stored: "loop_inv lossless fr hist x0 [] s'"
    if "hist (world s') = (hist (world s))\<lparr>committed := length (delivered (hist (world s)))\<rparr>"
      and "batch s' = batch s" and "redis_down s' = redis_down s" for s' :: "'w daemon"
    using reach_step [OF _ xfer_step.commit, of lossless x0 "xst hist [] s" "xst hist [] s'"] that assms
    by (simp add: loop_inv_def batch_cmds_def)
  show ?thesis
    unfolding safe_commit_def wp_rules
    by (intro atomic_wp [OF commit])
       (auto simp: commit_eff_def wp_rules intro: stored loop_inv_cong [OF assms(1)])
qed

lemma flush_and_commit_inv:
  assumes inv: "loop_inv lossless fr hist x0 [] s"
    and stamp: "\<And>s. loop_inv lossless fr hist x0 [] s \<Longrightarrow>
       wp False stamp (\<lambda>_. loop_inv lossless fr hist x0 []) (\<lambda>_. loop_inv lossless fr hist x0 []) s"
  shows "wp False (flush_and_commit R K stamp) (\<lambda>_. loop_inv lossless fr hist x0 [])
     (\<lambda>_. loop_inv lossless fr hist x0 []) s"
  unfolding flush_and_commit_def
proof (rule wp_bindI [OF flush_inv [OF inv]])
  fix ok and s' :: "'w daemon"
  assume s': "loop_inv lossless fr hist x0 [] s' \<and> batch s' = [] \<and> (lossless \<longrightarrow> ok)"
  show "wp False (if ok then seq_py (safe_commit K)
         (bind_py stamp (\<lambda>t. modify_py (\<lambda>s. s\<lparr>batch_start_time := t\<rparr>))) else set_redis_down True)
      (\<lambda>_. loop_inv lossless fr hist x0 []) (\<lambda>_. loop_inv lossless fr hist x0 []) s'"
  proof (cases ok)
    case True
    with s' show ?thesis
      by (auto intro!: wp_seqI [OF commit_inv] wp_bindI [OF stamp] simp: wp_modify)
  next
    case False
    with s' show ?thesis by (auto simp: set_redis_down_def wp_modify loop_inv_def xst_def)
  qed
qed

lemma update_metrics_inv:
  assumes "loop_inv lossless fr hist x0 infl s"
  shows "wp False (update_metrics R) (\<lambda>_. loop_inv lossless fr hist x0 infl) (\<lambda>_ _. False) s"
  unfolding update_metrics_def wp_rules
  by (rule atomic_wp [OF hlen]) (use assms in \<open>auto simp: read_eff_def wp_rules loop_inv_world\<close>)

lemma refresh_gauge_inv:
  assumes "loop_inv lossless fr hist x0 infl s"
  shows "wp False (refresh_gauge R now) (\<lambda>_. loop_inv lossless fr hist x0 infl) (\<lambda>_ _. False) s"
  using assms unfolding refresh_gauge_def
  by (auto simp: wp_rules intro!: wp_mono [OF update_metrics_inv])

text \<open>A message is put aside only while Redis is down.\<close>

lemma check_redis_inv:
  assumes "loop_inv lossless fr hist x0 infl s"
  shows "wp False (check_redis R H) (\<lambda>go_on s'. loop_inv lossless fr hist x0 infl s' \<and> (lossless \<longrightarrow> go_on))
     (\<lambda>_ s'. loop_inv lossless fr hist x0 infl s' \<and> \<not> lossless) s"
proof (cases "redis_down s")
  case True
  then have flaky: "\<not> lossless" using assms by (auto simp: loop_inv_def)
  have ok: "loop_inv False fr hist x0 infl s'" if "hist (world s') = hist (world s)" "batch s' = batch s"
    for s' :: "'w daemon"
    using assms that flaky by (simp add: loop_inv_def xst_def)
  from True show ?thesis
    unfolding check_redis_def wp_rules
    by (auto simp: set_redis_down_def wp_rules read_eff_def flaky
        intro!: atomic_wp [OF ping] atomic_wp [OF sleep] ok)
next
  case False
  with assms show ?thesis by (simp add: check_redis_def wp_rules)
qed

lemma time_inv: "loop_inv lossless fr hist x0 infl s \<Longrightarrow>
    wp False (in_world (h_time H)) (\<lambda>_. loop_inv lossless fr hist x0 infl) (\<lambda>_ _. False) s"
  unfolding wp_in_world by (rule atomic_wp [OF time]) (auto simp: loop_inv_world)

lemma on_idle_inv:
  assumes "loop_inv lossless fr hist x0 [] s"
  shows "wp False (on_idle R K now) (\<lambda>_. loop_inv lossless fr hist x0 []) (\<lambda>_. loop_inv lossless fr hist x0 []) s"
  using assms unfolding on_idle_def
  by (auto simp: wp_rules intro!: flush_and_commit_inv)

lemma report_inv:
  assumes "loop_inv lossless fr hist x0 [] s"
  shows "wp False (report R H) (\<lambda>_. loop_inv lossless fr hist x0 []) (\<lambda>_. loop_inv lossless fr hist x0 []) s"
proof -
  note calls = atomic_wp [OF hlen] atomic_wp [OF time]
  from assms show ?thesis
    unfolding report_def
    by (auto simp: wp_rules read_eff_def loop_inv_world intro!: wp_mono [OF update_metrics_inv] calls)
qed

text \<open>The message in flight is parsed: it joins the batch, or carries nothing.\<close>

lemma parse_inv:
  assumes "loop_inv lossless fr hist x0 [m] s" and ok: "lossless \<longrightarrow> cmds_ok fr (msg_cmds m)"
  shows "wp False (parse_event (msg_value m)) (\<lambda>_. loop_inv lossless fr hist x0 [])
     (\<lambda>_. loop_inv lossless fr hist x0 []) s"
proof (rule wp_mono [OF parse_event_actions])
  fix s' :: "'w daemon"
  assume s': "batch s' = batch s @ message_actions (msg_value m) \<and> world s' = world s \<and> ep.more s' = ep.more s"
  then have "redis_down s' = redis_down s" by (cases s; cases s') simp
  with s' assms reach_step [OF _ xfer_step.parse, of lossless x0 "xst hist [m] s" m "xst hist [] s'"]
  show "loop_inv lossless fr hist x0 [] s'"
    by (simp add: loop_inv_def msg_cmds_def cmds_ok_append)
next
  fix s' :: "'w daemon"
  assume "s' = s \<and> message_actions (msg_value m) = []"
  with assms reach_step [OF _ xfer_step.set_aside, of lossless x0 "xst hist [m] s" "xst hist [] s"]
  show "loop_inv lossless fr hist x0 [] s'"
    by (simp add: loop_inv_def msg_cmds_def batch_cmds_def)
qed

lemma on_message_inv:
  assumes "loop_inv lossless fr hist x0 [m] s" and "lossless \<longrightarrow> cmds_ok fr (msg_cmds m)"
  shows "wp False (on_message R K H m) (\<lambda>_. loop_inv lossless fr hist x0 [])
     (\<lambda>_. loop_inv lossless fr hist x0 []) s"
  unfolding on_message_def
proof (rule wp_seqI [OF parse_inv [OF assms]], rule wp_seqI)
  fix s' :: "'w daemon"
  assume "loop_inv lossless fr hist x0 [] s'"
  then show "wp False (bind_py (get_py (\<lambda>s. BATCH_SIZE \<le> batch_size s))
        (\<lambda>full. if full then flush_and_commit R K (in_world (h_time H)) else return_py ()))
      (\<lambda>_. loop_inv lossless fr hist x0 []) (\<lambda>_. loop_inv lossless fr hist x0 []) s'"
    by (auto simp: wp_rules simp del: wp_in_world intro!: flush_and_commit_inv wp_mono [OF time_inv])
qed (rule report_inv)

text \<open>One turn of the loop, whatever it polls and however it ends.\<close>

lemma main_iter_inv:
  assumes "loop_inv lossless fr hist x0 [] s"
  shows "wp False (main_iter R K H) (\<lambda>_. loop_inv lossless fr hist x0 [])
     (\<lambda>_. loop_inv lossless fr hist x0 []) s"
proof -
  define infl where "infl msg = (case msg of None \<Rightarrow> [] | Some m \<Rightarrow> if msg_error m = None then [m] else [])"
    for msg :: "kafka_msg option"
  define fine where "fine msg \<longleftrightarrow> (lossless \<longrightarrow> (\<forall>m \<in> set (infl msg). cmds_ok fr (msg_cmds m)))" for msg
  have polled: "loop_inv lossless fr hist x0 [m] (s\<lparr>world := w\<rparr>)"
    if "hist w = (hist (world s))\<lparr>delivered := delivered (hist (world s)) @ [m]\<rparr>" for w m
    using assms that reach_step [OF _ xfer_step.poll, of lossless x0 "xst hist [] s" m "xst hist [m] (s\<lparr>world := w\<rparr>)"]
    by (simp add: loop_inv_def)
  have poll': "wp False (in_world (k_poll K 1))
      (\<lambda>msg s'. loop_inv lossless fr hist x0 (infl msg) s' \<and> fine msg) (\<lambda>_. loop_inv lossless fr hist x0 []) s"
    unfolding wp_in_world
    by (rule atomic_wp [OF poll])
       (use assms in \<open>auto simp: poll_eff_def infl_def fine_def loop_inv_world polled split: option.splits if_splits\<close>)
  have rest: "wp False (dispatch R K H now msg)
      (\<lambda>_. loop_inv lossless fr hist x0 []) (\<lambda>_. loop_inv lossless fr hist x0 []) s'"
    if "loop_inv lossless fr hist x0 (infl msg) s'" "fine msg" for msg now and s' :: "'w daemon"
    using that on_idle_inv on_message_inv
    by (auto simp: dispatch_def infl_def fine_def on_error_msg_def wp_rules split: option.splits)
  show ?thesis
    unfolding main_iter_def wp_bind wp_seq
    by (rule wp_mono [OF poll'], rule wp_mono [OF time_inv [OF conjunct1]], assumption,
        rule wp_mono [OF refresh_gauge_inv], assumption, rule wp_mono [OF check_redis_inv], assumption)
       (auto simp: wp_return intro: loop_inv_drop rest)
qed

lemma shutdown_inv:
  assumes "loop_inv lossless fr hist x0 [] s"
  shows "wp False (shutdown R K) (\<lambda>_ s'. loop_inv lossless fr hist x0 [] s' \<and> batch s' = [])
     (\<lambda>_. loop_inv lossless fr hist x0 []) s"
proof -
  have flushed: "wp False (bind_py (flush_batch R) (\<lambda>ok. if ok then safe_commit K else return_py ()))
      (\<lambda>_ s'. loop_inv lossless fr hist x0 [] s' \<and> batch s' = []) (\<lambda>_. loop_inv lossless fr hist x0 []) s"
    unfolding wp_bind
  proof (rule wp_mono [OF flush_inv [OF assms]])
    fix ok and s' :: "'w daemon"
    assume s': "loop_inv lossless fr hist x0 [] s' \<and> batch s' = [] \<and> (lossless \<longrightarrow> ok)"
    have "wp False (safe_commit K) (\<lambda>_ s''. batch s'' = batch s') (\<lambda>_ _. True) s'"
      unfolding safe_commit_def wp_rules by (rule atomic_wp [OF commit]) (auto simp: wp_rules)
    from wp_conj [OF commit_inv this] s'
    have "wp False (safe_commit K) (\<lambda>_ s'. loop_inv lossless fr hist x0 [] s' \<and> batch s' = [])
        (\<lambda>_. loop_inv lossless fr hist x0 []) s'"
      by (auto elim!: wp_mono)
    with s' show "wp False (if ok then safe_commit K else return_py ())
        (\<lambda>_ s'. loop_inv lossless fr hist x0 [] s' \<and> batch s' = []) (\<lambda>_. loop_inv lossless fr hist x0 []) s'"
      by (simp add: wp_rules)
  qed auto
  have closed: "wp False (in_world (k_close K)) (\<lambda>_ s'. loop_inv lossless fr hist x0 [] s' \<and> batch s' = [])
     (\<lambda>_. loop_inv lossless fr hist x0 []) s'"
    if "loop_inv lossless fr hist x0 [] s' \<and> batch s' = []" for s' :: "'w daemon"
    unfolding wp_in_world by (rule atomic_wp [OF close]) (use that in \<open>auto simp: loop_inv_world\<close>)
  show ?thesis
    unfolding shutdown_def
  proof (rule wp_seqI [OF _ closed])
    show "wp False (bind_py (get_py (\<lambda>s. 0 < batch_size s)) (\<lambda>some. if some then
          bind_py (flush_batch R) (\<lambda>ok. if ok then safe_commit K else return_py ()) else return_py ()))
        (\<lambda>_ s'. loop_inv lossless fr hist x0 [] s' \<and> batch s' = []) (\<lambda>_. loop_inv lossless fr hist x0 []) s"
      using flushed assms by (cases "batch s = []") (simp_all add: wp_bind wp_get wp_return batch_size_def)
  qed
qed

lemma main_loop_inv:
  assumes "loop_inv lossless fr hist x0 [] s"
  shows "wp True (main_loop R K H) (\<lambda>_. loop_inv lossless fr hist x0 [])
     (\<lambda>_. loop_inv lossless fr hist x0 []) s"
  unfolding main_loop_def
proof (rule wp_while [where I = "loop_inv lossless fr hist x0 []" and I' = "loop_inv lossless fr hist x0 []"])
  fix s :: "'w daemon"
  assume inv: "loop_inv lossless fr hist x0 [] s"
  show "wp True (in_world (h_running H)) (\<lambda>b. if b then loop_inv lossless fr hist x0 [] else loop_inv lossless fr hist x0 [])
      (\<lambda>_. loop_inv lossless fr hist x0 []) s"
    unfolding wp_in_world by (rule atomic_wp [OF running]) (use inv in \<open>auto simp: loop_inv_world\<close>)
  show "wp True (main_iter R K H) (\<lambda>_. loop_inv lossless fr hist x0 []) (\<lambda>_. loop_inv lossless fr hist x0 []) s"
    by (rule wp_partial [OF main_iter_inv [OF inv]])
qed (rule assms)

text \<open>The whole daemon from the loop on: on every exit the batch was offered to Redis.\<close>

lemma run_inv:
  assumes "loop_inv lossless fr hist x0 [] s"
  shows "wp True (try_finally (main_loop R K H) (shutdown R K))
     (\<lambda>_ s'. loop_inv lossless fr hist x0 [] s' \<and> batch s' = []) (\<lambda>_. loop_inv lossless fr hist x0 []) s"
  unfolding wp_try_finally
  by (rule wp_mono [OF main_loop_inv [OF assms]]) (auto intro!: wp_mono [OF wp_partial [OF shutdown_inv]])

end

end
