(* ===== verification/ConsumerSim.thy ===== *)
theory ConsumerSim
  imports ConsumerLoop
begin

text \<open>
  A scripted outside world for the consumer daemon (an in-memory Redis with scripted faults, a
  Kafka topic that is a list, a clock), the proof that it meets the contract of the poll loop,
  and the delivery properties of the daemon.
\<close>

subsection \<open>The scripted world\<close>

text \<open>
  \<open>sc_polls\<close> is what the next polls give (an exhausted topic is idle), \<open>sc_rounds\<close> how often
  \<open>running\<close> is still true. A poll takes one second.
\<close>

record script = mem +
  sc_polls :: "kafka_msg option list"
  sc_hist :: history
  sc_clock :: int
  sc_rounds :: nat

definition deliver :: "kafka_msg option \<Rightarrow> history \<Rightarrow> history" where
  "deliver msg h = (case msg of None \<Rightarrow> h
     | Some m \<Rightarrow> if msg_error m = None then h\<lparr>delivered := delivered h @ [m]\<rparr> else h)"

text \<open>With \<open>strict\<close> the topic holds no message with a value Redis refuses.\<close>

definition sim_poll :: "bool \<Rightarrow> (string \<Rightarrow> string) \<Rightarrow> rat \<Rightarrow> (script, kafka_msg option) py" where
  "sim_poll strict fr timeout = (\<lambda>w.
     let msg = (case sc_polls w of [] \<Rightarrow> None
       | p # _ \<Rightarrow> (case p of Some m \<Rightarrow> if strict \<and> \<not> cmds_ok fr (msg_cmds m) then None else p | None \<Rightarrow> None))
     in Some (Inr msg, w\<lparr>sc_polls := tl (sc_polls w), sc_clock := sc_clock w + 1, sc_hist := deliver msg (sc_hist w)\<rparr>))"

definition sim_kafka :: "bool \<Rightarrow> (string \<Rightarrow> string) \<Rightarrow> script kafka" where
  "sim_kafka strict fr = \<lparr>
     k_new = (\<lambda>_ _. return_py ()),
     k_list_topics = (\<lambda>_. return_py 1),
     k_subscribe = (\<lambda>_. return_py ()),
     k_poll = sim_poll strict fr,
     k_commit = (\<lambda>w. Some (Inr (),
        w\<lparr>sc_hist := (sc_hist w)\<lparr>committed := length (delivered (sc_hist w))\<rparr>\<rparr>)),
     k_close = return_py ()\<rparr>"

definition sim_host :: "script host" where
  "sim_host = \<lparr>
     h_time = get_py (\<lambda>w. of_int (sc_clock w)),
     h_sleep = (\<lambda>secs. modify_py (\<lambda>w. w\<lparr>sc_clock := sc_clock w + \<lceil>secs\<rceil>\<rparr>)),
     h_running = (\<lambda>w. Some (Inr (sc_rounds w \<noteq> 0), w\<lparr>sc_rounds := sc_rounds w - 1\<rparr>)),
     h_start_http_server = (\<lambda>_. return_py ())\<rparr>"

text \<open>The in-memory Redis, with the applied commands recorded; a \<open>strict\<close> one never fails.\<close>

definition sim_redis :: "bool \<Rightarrow> (string \<Rightarrow> string) \<Rightarrow> script redis_client" where
  "sim_redis strict fr = (mem_redis fr)\<lparr>rd_pipeline := (\<lambda>cmds w.
     map_option (\<lambda>(r, w'). (r, if r = Inr ()
         then w'\<lparr>sc_hist := (sc_hist w')\<lparr>applied := applied (sc_hist w') @ cmds\<rparr>\<rparr> else w'))
       (rd_pipeline (mem_redis fr) cmds (if strict then w\<lparr>m_faults := []\<rparr> else w)))\<rparr>"

text \<open>The commands of the in-memory server leave the rest of the world alone.\<close>

lemma sc_hist_cmd [simp]: "sc_hist (mem_cmd w c) = sc_hist w"
  by (cases c) (simp_all add: mem_set_hash_def)

lemma sc_hist_cmds [simp]: "sc_hist (foldl mem_cmd w cs) = sc_hist w"
  by (induction cs arbitrary: w) simp_all

lemma mem_call_read: "atomic sc_hist (=) (read_eff (\<lambda>_ _. True)) (mem_call (\<lambda>w. (Inr (f w), w)))"
  by (auto simp: atomic_def mem_call_def read_eff_def split: list.split)

lemma sim_pipeline:
  "atomic sc_hist (=) (pipe_eff strict fr cmds) (rd_pipeline (sim_redis strict fr) cmds)"
  by (cases "encode_cmds fr cmds")
    (auto simp: atomic_def sim_redis_def mem_redis_def mem_call_def pipe_eff_def cmds_ok_def
      dest: encode_cmds_error split: list.split)

interpretation sim: consumer_env sc_hist "sim_redis strict fr" "sim_kafka strict fr" sim_host fr strict
proof unfold_locales
  fix t :: rat and key :: string and cmds
  show "atomic sc_hist (=) (poll_eff strict fr) (k_poll (sim_kafka strict fr) t)"
    by (auto simp: atomic_def sim_kafka_def sim_poll_def poll_eff_def deliver_def Let_def
        split: list.split option.split)
  show "atomic sc_hist (=) commit_eff (k_commit (sim_kafka strict fr))"
    by (simp add: atomic_def sim_kafka_def commit_eff_def)
  show "atomic sc_hist (=) (pipe_eff strict fr cmds) (rd_pipeline (sim_redis strict fr) cmds)"
    by (rule sim_pipeline)
  show "atomic sc_hist (=) (read_eff (\<lambda>_ _. True)) (rd_ping (sim_redis strict fr))"
    using mem_call_read [of "\<lambda>_. ()"] by (simp add: sim_redis_def mem_redis_def)
  show "atomic sc_hist (=) (read_eff (\<lambda>_ _. True)) (rd_hlen (sim_redis strict fr) key)"
    by (simp add: sim_redis_def mem_redis_def mem_call_read)
qed (simp_all add: atomic_def sim_host_def sim_kafka_def py_defs)

subsection \<open>Example runs\<close>

definition ex_msg :: "string \<Rightarrow> kafka_msg" where
  "ex_msg v = \<lparr>msg_error = None, msg_value = Some v\<rparr>"

definition ex_world :: "kafka_msg option list \<Rightarrow> nat \<Rightarrow> bool list \<Rightarrow> script" where
  "ex_world polls rounds faults = \<lparr>m_hash = (\<lambda>_. []), m_str = (\<lambda>_. None), m_time = 0, m_faults = faults,
     sc_polls = polls, sc_hist = \<lparr>delivered = [], committed = 0, applied = []\<rparr>,
     sc_clock = 0, sc_rounds = rounds\<rparr>"

definition ex_daemon :: "script \<Rightarrow> script daemon" where
  "ex_daemon w = start_daemon 0 0 \<lparr>world = w, processed = 0, skipped_delete = 0, errors = 0, batch = [],
     prom = [], last_log_count = 0, last_metrics_time = 0, batch_start_time = 0, redis_down = False\<rparr>"

definition ex_daemon_run :: "bool \<Rightarrow> script \<Rightarrow> ((exn + unit) \<times> script daemon) option" where
  "ex_daemon_run strict w = try_finally (main_loop (sim_redis strict id) (sim_kafka strict id) sim_host)
     (shutdown (sim_redis strict id) (sim_kafka strict id)) (ex_daemon w)"

lemma ex_daemon_fresh: "sc_hist (world \<lparr>world = ex_world polls rounds faults, processed = 0, skipped_delete = 0,
    errors = 0, batch = [], prom = [], last_log_count = 0, last_metrics_time = 0, batch_start_time = 0,
    redis_down = False\<rparr>) = \<lparr>delivered = [], committed = 0, applied = []\<rparr>"
  by (simp add: ex_world_def)

subsection \<open>Properties\<close>

text \<open>The state the loop starts from is the initial state of the machine.\<close>

lemma loop_inv_start:
  assumes "hist (world s) = \<lparr>delivered = [], committed = 0, applied = []\<rparr>"
  shows "loop_inv b fr hist (xst hist [] (start_daemon t1 t2 s)) [] (start_daemon t1 t2 s)"
    and "exact_inv (xst hist [] (start_daemon t1 t2 s))" and "order_inv (xst hist [] (start_daemon t1 t2 s))"
  using assms by (simp_all add: loop_inv_def exact_inv_def order_inv_def start_daemon_def batch_cmds_def cmds_ok_def)

lemma daemon_run_inv:
  assumes "consumer_env hist R K H fr b"
    and "hist (world s) = \<lparr>delivered = [], committed = 0, applied = []\<rparr>"
    and run: "try_finally (main_loop R K H) (shutdown R K) (start_daemon t1 t2 s) = Some (r, s')"
  shows "loop_inv b fr hist (xst hist [] (start_daemon t1 t2 s)) [] s' \<and> (r = Inr () \<longrightarrow> batch s' = [])"
proof -
  have "wp True (try_finally (main_loop R K H) (shutdown R K))
     (\<lambda>_ s'. loop_inv b fr hist (xst hist [] (start_daemon t1 t2 s)) [] s' \<and> batch s' = [])
     (\<lambda>_. loop_inv b fr hist (xst hist [] (start_daemon t1 t2 s)) []) (start_daemon t1 t2 s)"
    using assms(1) by (rule consumer_env.run_inv) (rule loop_inv_start(1), rule assms(2))
  with run show ?thesis by (auto simp: wp_def split: sum.splits)
qed






subsection \<open>Size of the batch\<close>

text \<open>Whatever a call to the outside does, it does not touch the object.\<close>

lemma wp_any_call: "(\<And>x w. Q x (s\<lparr>world := w\<rparr>)) \<Longrightarrow> (\<And>e w. E e (s\<lparr>world := w\<rparr>)) \<Longrightarrow> wp True (in_world m) Q E s"
  unfolding wp_in_world by (rule wp_any)

lemma flush_empties: "wp True (flush_batch R) (\<lambda>_ s'. batch s' = []) (\<lambda>_ _. True) s"
  by (cases "batch s = []") (auto simp: flush_batch_def wp_rules simp del: wp_in_world intro!: wp_any_call)

lemma update_metrics_batch: "wp True (update_metrics R) (\<lambda>_ s'. batch s' = batch s) (\<lambda>_ _. True) s"
  by (auto simp: update_metrics_def wp_rules simp del: wp_in_world intro!: wp_any_call)

lemma report_batch: "wp True (report R H) (\<lambda>_ s'. batch s' = batch s) (\<lambda>_ _. True) (s :: 'w daemon)"
  by (auto simp: report_def wp_rules simp del: wp_in_world intro!: wp_mono [OF update_metrics_batch] wp_any_call)

lemma flush_and_commit_batch:
  "wp True (flush_and_commit R K stamp) (\<lambda>_ s'. batch s' = []) (\<lambda>_ _. True) s"
  if "\<And>s. wp True stamp (\<lambda>_ s'. batch s' = batch s) (\<lambda>_ _. True) s" for s :: "'w daemon"
  by (auto simp: flush_and_commit_def safe_commit_def set_redis_down_def wp_rules simp del: wp_in_world
      intro!: wp_mono [OF flush_empties] wp_mono [OF that] wp_any_call)

lemma on_message_batch:
  assumes "batch_size s < BATCH_SIZE"
  shows "wp True (on_message R K H m) (\<lambda>_ s'. batch_size s' < BATCH_SIZE \<and> batch_size s' \<le> batch_size s + 1)
     (\<lambda>_ _. True) (s :: 'w daemon)"
proof -
  have parsed: "wp False (parse_event (msg_value m)) (\<lambda>_ s'. batch_size s' \<le> batch_size s + 1) (\<lambda>_ _. True) s"
    by (rule wp_mono [OF parse_event_actions])
       (auto simp: batch_size_def message_actions_def Let_def split: sum.splits json.splits)
  have full: "wp True (flush_and_commit R K (in_world (h_time H))) (\<lambda>_ s'. batch s' = []) (\<lambda>_ _. True) t"
    for t :: "'w daemon"
    by (rule flush_and_commit_batch) (auto intro!: wp_any_call)
  show ?thesis
    unfolding on_message_def
  proof (rule wp_seqI [OF wp_partial [OF parsed]], rule wp_seqI)
    fix t :: "'w daemon"
    assume t: "batch_size t \<le> batch_size s + 1"
    show "wp True (bind_py (get_py (\<lambda>s. BATCH_SIZE \<le> batch_size s))
          (\<lambda>full. if full then flush_and_commit R K (in_world (h_time H)) else return_py ()))
        (\<lambda>_ s'. batch_size s' < BATCH_SIZE \<and> batch_size s' \<le> batch_size s + 1) (\<lambda>_ _. True) t"
      using t by (auto simp: wp_bind wp_get wp_return batch_size_def BATCH_SIZE_def intro!: wp_mono [OF full])
  next
    fix t :: "'w daemon"
    assume "batch_size t < BATCH_SIZE \<and> batch_size t \<le> batch_size s + 1"
    then show "wp True (report R H) (\<lambda>_ s'. batch_size s' < BATCH_SIZE \<and> batch_size s' \<le> batch_size s + 1) (\<lambda>_ _. True) t"
      by (auto simp: batch_size_def intro!: wp_mono [OF report_batch])
  qed
qed

lemma main_iter_batch:
  assumes "batch_size s < BATCH_SIZE"
  shows "wp True (main_iter R K H) (\<lambda>_ s'. batch_size s' < BATCH_SIZE \<and> batch_size s' \<le> batch_size s + 1)
     (\<lambda>_ _. True) (s :: 'w daemon)"
proof -
  let ?ok = "\<lambda>_ s'. batch_size s' < BATCH_SIZE \<and> batch_size s' \<le> batch_size s + 1"
  have idle: "wp True (on_idle R K now) ?ok (\<lambda>_ _. True) t" if "batch t = batch s" for now and t :: "'w daemon"
    using that assms
    by (auto simp: on_idle_def wp_bind wp_get wp_return batch_size_def BATCH_SIZE_def
        intro!: wp_mono [OF flush_and_commit_batch])
  have rest: "wp True (dispatch R K H now msg) ?ok (\<lambda>_ _. True) t" if "batch t = batch s" for now msg and t :: "'w daemon"
    using idle [OF that] on_message_batch [of t] assms that
    by (auto simp: dispatch_def on_error_msg_def wp_rules batch_size_def split: option.split)
  have check: "wp True (check_redis R H) (\<lambda>_ s'. batch s' = batch t) (\<lambda>_ _. True) t" for t :: "'w daemon"
    by (auto simp: check_redis_def set_redis_down_def wp_rules simp del: wp_in_world intro!: wp_any_call)
  have gauge: "wp True (refresh_gauge R now) (\<lambda>_ s'. batch s' = batch t) (\<lambda>_ _. True) t" for now and t :: "'w daemon"
    by (auto simp: refresh_gauge_def wp_rules intro!: wp_mono [OF update_metrics_batch])
  show ?thesis
    unfolding main_iter_def wp_bind wp_seq wp_in_world
    by (rule wp_any, rule wp_any, rule wp_mono [OF gauge], rule wp_mono [OF check])
       (use rest assms in \<open>auto simp: wp_return batch_size_def\<close>)
qed

text \<open>
  The batch is bounded: a turn of the loop that starts with fewer than \<open>BATCH_SIZE\<close> entries
  ends with fewer, whatever Redis, Kafka and the message do, and adds at most one.
\<close>

theorem main_iter_bounds_batch:
  assumes "batch_size s < BATCH_SIZE" and "main_iter R K H s = Some (Inr (), s')"
  shows "batch_size s' < BATCH_SIZE \<and> batch_size s' \<le> batch_size s + 1"
  using wp_returnD [OF main_iter_batch [OF assms(1)] assms(2)] .

theorem main_iter_bounds_batch_witness:
  "\<exists>s'. main_iter (sim_redis False id) (sim_kafka False id) sim_host (ex_daemon (ex_world [Some (ex_msg ex_changed)] 1 [])) =
     Some (Inr (), s') \<and> batch_size s' < BATCH_SIZE"
proof -
  let ?s = "ex_daemon (ex_world [Some (ex_msg ex_changed)] 1 [])"
  have run: "map_option fst (main_iter (sim_redis False id) (sim_kafka False id) sim_host ?s) = Some (Inr ())"
    by code_simp
  have "batch_size ?s < BATCH_SIZE"
    by (simp add: ex_daemon_def start_daemon_def batch_size_def BATCH_SIZE_def)
  from main_iter_bounds_batch [OF this run_outcome [OF run]] run_outcome [OF run] show ?thesis by blast
qed

subsection \<open>The timed flush\<close>

text \<open>The outcome of a flush and commit on the history.\<close>

definition flushed_at :: "('w \<Rightarrow> history) \<Rightarrow> rat \<Rightarrow> 'w daemon \<Rightarrow> 'w daemon \<Rightarrow> bool" where
  "flushed_at hist now s s' \<longleftrightarrow> (let h = hist (world s); h' = hist (world s') in
     batch s' = [] \<and> delivered h' = delivered h \<and>
     (if redis_down s'
      then committed h' = committed h \<and> (applied h' = applied h \<or> applied h' = applied h @ batch_cmds (batch s))
      else applied h' = applied h @ batch_cmds (batch s) \<and> batch_start_time s' = now \<and>
        (committed h' = length (delivered h) \<or>
         committed h' = committed h \<and> Inc KAFKA_COMMIT_ERRORS 1 \<in> set (prom s'))))"

context consumer_env
begin

lemma flush_and_commit_flushed:
  assumes "\<not> redis_down s" and "batch s \<noteq> []"
  shows "wp False (flush_and_commit R K (return_py now)) (\<lambda>_. flushed_at hist now s) (\<lambda>_ _. True) s"
  using assms
  by (auto simp: flush_and_commit_def flush_batch_def safe_commit_def set_redis_down_def flushed_at_def Let_def
      pipe_eff_def commit_eff_def wp_rules intro!: atomic_wp [OF pipeline] atomic_wp [OF commit])

lemma refresh_gauge_quiet:
  "wp False (refresh_gauge R now) (\<lambda>_ t. hist (world t) = hist (world s) \<and> batch t = batch s \<and>
     redis_down t = redis_down s \<and> batch_start_time t = batch_start_time s) (\<lambda>_ _. False) s"
  by (auto simp: refresh_gauge_def update_metrics_def wp_rules read_eff_def intro!: atomic_wp [OF hlen])

end

text \<open>
  An idle poll five seconds or more after the batch was started flushes it. If Redis took
  the batch, the offset is committed (or the failure of the commit is counted) and the timer
  restarts; if Redis did not, nothing is committed and the daemon goes into its reconnection
  state. In both cases the batch is gone.
\<close>

theorem idle_poll_flushes:
  assumes env: "consumer_env hist R K H fr b"
    and idle: "k_poll K 1 (world s) = Some (Inr None, w1)" "h_time H w1 = Some (Inr now, w2)"
    and due: "\<not> redis_down s" "batch s \<noteq> []" "now - batch_start_time s \<ge> BATCH_TIMEOUT"
    and run: "main_iter R K H s = Some (Inr (), s')"
  shows "flushed_at hist now s s'"
proof -
  have quiet: "hist w2 = hist (world s)"
  proof -
    from consumer_env.poll [OF env, of 1] idle(1) have "hist w1 = hist (world s)"
      by (auto simp: atomic_def poll_eff_def dest!: spec [of _ "world s"])
    with consumer_env.time [OF env] idle(2) show ?thesis
      by (auto simp: atomic_def dest!: spec [of _ w1])
  qed
  have "wp False (main_iter R K H) (\<lambda>_. flushed_at hist now s) (\<lambda>_ _. True) s"
  proof -
    have rest: "wp False (bind_py (check_redis R H) (\<lambda>go_on. if \<not> go_on then return_py () else dispatch R K H now None))
        (\<lambda>_. flushed_at hist now s) (\<lambda>_ _. True) t"
      if "hist (world t) = hist (world s) \<and> batch t = batch s \<and>
        redis_down t = redis_down s \<and> batch_start_time t = batch_start_time s" for t
    proof -
      have same: "flushed_at hist now t = flushed_at hist now s"
        using that by (simp add: fun_eq_iff flushed_at_def)
      show ?thesis
        using that due consumer_env.flush_and_commit_flushed [OF env, of t now, unfolded same]
        by (simp add: check_redis_def dispatch_def on_idle_def batch_size_def wp_rules)
    qed
    show ?thesis
      using idle quiet unfolding main_iter_def wp_bind wp_seq wp_in_world
      by (auto simp: wp_def [of False "k_poll K 1"] wp_def [of False "h_time H"]
          intro!: wp_mono [OF consumer_env.refresh_gauge_quiet [OF env]] rest [unfolded wp_bind])
  qed
  from wp_returnD [OF this run] show ?thesis .
qed

definition ex_waiting :: "script daemon" where
  "ex_waiting = (ex_daemon (ex_world [] 1 []))\<lparr>batch := [Act_hset (JStr ''/home/s1/u/a'') (JStr ''mtime_change'')],
     batch_start_time := - 4\<rparr>"

theorem idle_poll_flushes_witness:
  "\<exists>s'. main_iter (sim_redis False id) (sim_kafka False id) sim_host ex_waiting = Some (Inr (), s') \<and>
     flushed_at sc_hist 1 ex_waiting s' \<and> \<not> redis_down s'"
proof -
  have run: "map_option (\<lambda>(r, s'). (r, redis_down s')) (main_iter (sim_redis False id) (sim_kafka False id) sim_host ex_waiting) =
      Some (Inr (), False)"
    by code_simp
  then obtain s' where s': "main_iter (sim_redis False id) (sim_kafka False id) sim_host ex_waiting = Some (Inr (), s')"
    "\<not> redis_down s'" by auto
  let ?w = "(world ex_waiting)\<lparr>sc_clock := 1\<rparr>"
  have poll: "k_poll (sim_kafka False id) 1 (world ex_waiting) = Some (Inr None, ?w)"
    by (simp add: ex_waiting_def ex_daemon_def ex_world_def start_daemon_def sim_kafka_def sim_poll_def deliver_def)
  have clock: "h_time sim_host ?w = Some (Inr 1, ?w)"
    by (simp add: sim_host_def get_py_def)
  have "flushed_at sc_hist 1 ex_waiting s'"
    by (rule idle_poll_flushes [OF sim.consumer_env_axioms poll clock _ _ _ s'(1)])
       (simp_all add: ex_waiting_def ex_daemon_def start_daemon_def BATCH_TIMEOUT_def)
  with s' show ?thesis by blast
qed

subsection \<open>Start-up\<close>


text \<open>
  With a server that refuses the first \<open>n\<close> connections, for any \<open>n\<close>, start-up returns at the
  first answer, after \<open>n\<close> waits of five seconds.
\<close>

theorem connect_redis_recovers:
  "\<exists>w'. connect_redis (mem_redis id) sim_host [''db'' \<mapsto> [''redis_url'' \<mapsto> CStr ''redis://r'']]
     (ex_world [] 0 (replicate n True)) = Some (Inr (), w') \<and>
     sc_clock w' = 5 * int n \<and> m_faults w' = []"
proof -
  let ?attempt = "try_connect (mem_redis id) sim_host (CStr ''redis://r'')"
  define w where "w k i = (ex_world [] 0 (replicate k True))\<lparr>sc_clock := i\<rparr>" for k i
  have bad: "?attempt (w (Suc k) i) = Some (Inr False, w k (i + 5))" for k i
    by (simp add: w_def ex_world_def try_connect_def mem_redis_def mem_call_def sim_host_def py_defs REDIS_RETRY_INTERVAL_def)
  have good: "?attempt (w 0 i) = Some (Inr True, w 0 i)" for i
    by (simp add: w_def ex_world_def try_connect_def mem_redis_def mem_call_def py_defs)
  have "fails ?attempt n (w n i) (w 0 (i + 5 * int n))" for i
  proof (induction n arbitrary: i)
    case (Suc n)
    have "i + 5 + 5 * int n = i + 5 * int (Suc n)" by simp
    with Suc.IH [of "i + 5"] bad show ?case by (simp only: fails.simps) blast
  qed simp
  with good have "until_py ?attempt (w n 0) = Some (Inr (), w 0 (5 * int n))"
    unfolding until_py_iff by (metis add_0)
  moreover have "w n 0 = ex_world [] 0 (replicate n True)" by (simp add: w_def ex_world_def)
  ultimately show ?thesis
    by (simp add: connect_redis_def connect_loop_def cfg_item_def bind_py_def lift_sum_def w_def ex_world_def)
qed

end
