(* ===== verification/Backup.thy ===== *)
theory Backup
  imports RedisMem Complex_Main
begin

text \<open>
  \<open>backup/backup.py\<close>: \<open>RepoManager\<close>, \<open>backup_repo\<close>, the distributed lock, the backup run and
  \<open>main\<close>. The operating system (subprocesses, files, clock, host name) is a parameter: a record
  of calls on the outside world. The thread pool is modelled by the order in which its jobs
  complete, a parameter \<open>sched\<close>: the jobs run one after another in that order. They share only
  the \<open>RepoManager\<close>, whose sets are keyed by the repository URL, and each job has its own.
  Log calls and the logging set-up are left out.
\<close>

subsection \<open>Parameters and state\<close>

record 'w os =
  os_run :: "cfgval \<Rightarrow> string list \<Rightarrow> environ \<Rightarrow> int option \<Rightarrow> ('w, int \<times> string \<times> string) py"
  os_exists :: "string \<Rightarrow> ('w, bool) py"
  os_mktemp :: "('w, string) py"
  os_write :: "string \<Rightarrow> string \<Rightarrow> ('w, unit) py"
  os_unlink :: "string \<Rightarrow> ('w, unit) py"
  os_sleep :: "int \<Rightarrow> ('w, unit) py"
  os_time :: "('w, rat) py"
  os_hostname :: "('w, string) py"
  os_environ :: "('w, environ) py"

text \<open>The state of a run: the outside world and the sets of the \<open>RepoManager\<close>.\<close>

record 'w run_state =
  outside :: 'w
  initialized :: "string list"
  init_pending :: "string list"

definition on_outside :: "('w, 'a) py \<Rightarrow> ('w run_state, 'a) py" where
  "on_outside m = (\<lambda>s. Option.bind (m (outside s)) (\<lambda>(r, w). Some (r, s\<lparr>outside := w\<rparr>)))"

record repo_result =
  res_total :: int
  res_backed_up :: int
  res_skipped :: int
  res_errors :: int

text \<open>\<open>bytes.decode()\<close> with the default codec.\<close>

definition decode_utf8 :: "string \<Rightarrow> exn + string" where
  "decode_utf8 b = (if utf8_ok False b then Inr b else Inl UnicodeDecodeError)"

subsection \<open>RepoManager\<close>

definition ensure :: "'w os \<Rightarrow> cfgval \<Rightarrow> string \<Rightarrow> environ \<Rightarrow> ('w run_state, bool) py" where
  "ensure OS restic url env =
     bind_py (get_py (\<lambda>s. url \<in> set (initialized s))) (\<lambda>known.
     if known then return_py True else
     seq_py (modify_py (\<lambda>s. s\<lparr>init_pending := List.insert url (init_pending s)\<rparr>))
     (try_finally
       (bind_py (on_outside (os_run OS restic [''cat'', ''config'', ''-r'', url] env None)) (\<lambda>(rc, out, err).
        bind_py
          (if rc \<noteq> 0 then
             bind_py (on_outside (os_run OS restic [''init'', ''-r'', url] env None)) (\<lambda>(rc, out, err).
             if rc \<noteq> 0 then bind_py (lift_sum (decode_utf8 err)) (\<lambda>_. return_py False) else return_py True)
           else return_py True)
          (\<lambda>ok. if ok then seq_py (modify_py (\<lambda>s. s\<lparr>initialized := List.insert url (initialized s)\<rparr>)) (return_py True)
                else return_py False)))
       (modify_py (\<lambda>s. s\<lparr>init_pending := removeAll url (init_pending s)\<rparr>))))"

subsection \<open>backup_repo\<close>

definition max_retries :: int where "max_retries = 3"

text \<open>
  The retry loop over the attempts still to make: the counts \<open>(backed_up, errors)\<close> it leaves.
  Exit codes 0 and 3 (some files vanished) end it.
\<close>

fun backup_attempts ::
  "'w os \<Rightarrow> cfgval \<Rightarrow> string \<Rightarrow> string \<Rightarrow> environ \<Rightarrow> int \<Rightarrow> int list \<Rightarrow> ('w run_state, int \<times> int) py" where
  "backup_attempts OS restic list_file url env n [] = return_py (0, 0)"
| "backup_attempts OS restic list_file url env n (attempt # rest) =
     bind_py (on_outside (os_run OS restic
        [''backup'', ''--files-from'', list_file, ''-r'', url, ''--tag'', ''incremental''] env (Some 3600)))
     (\<lambda>(rc, out, err).
       if rc \<in> {0, 3} then return_py (n, 0)
       else bind_py (lift_sum (decode_utf8 err)) (\<lambda>_.
         if attempt < max_retries
         then seq_py (on_outside (os_sleep OS (attempt * 10)))
                (backup_attempts OS restic list_file url env n rest)
         else bind_py (backup_attempts OS restic list_file url env n rest) (\<lambda>(done, _). return_py (done, n))))"

definition backup_repo ::
  "'w os \<Rightarrow> config \<Rightarrow> environ \<Rightarrow> cfgval \<Rightarrow> string \<Rightarrow> string list \<Rightarrow> ('w run_state, repo_result) py" where
  "backup_repo OS cfg env restic repo_id paths =
     bind_py (lift_sum (repo_url cfg repo_id)) (\<lambda>url.
     bind_py (ensure OS restic url env) (\<lambda>ok.
     let tot = int (length paths) in
     if \<not> ok then return_py \<lparr>res_total = tot, res_backed_up = 0, res_skipped = 0, res_errors = tot\<rparr> else
     bind_py (filter_py (\<lambda>p. on_outside (os_exists OS p)) paths) (\<lambda>existing.
     let n = int (length existing) in
     if existing = [] then return_py \<lparr>res_total = tot, res_backed_up = 0, res_skipped = tot - n, res_errors = 0\<rparr> else
     bind_py (on_outside (os_mktemp OS)) (\<lambda>list_file.
     seq_py (on_outside (os_write OS list_file (join_on (CHR 0x0A) existing)))
     (try_finally
       (bind_py (backup_attempts OS restic list_file url env n [1..max_retries]) (\<lambda>(done, errs).
        return_py \<lparr>res_total = tot, res_backed_up = done, res_skipped = tot - n, res_errors = errs\<rparr>))
       (on_outside (os_unlink OS list_file)))))))"

subsection \<open>The lock\<close>

definition LOCK_KEY :: string where "LOCK_KEY = ''backup:lock''"
definition LOCK_TTL :: int where "LOCK_TTL = 7200"

definition acquire_lock :: "'w redis_client \<Rightarrow> 'w os \<Rightarrow> ('w, bool) py" where
  "acquire_lock R OS =
     bind_py (os_hostname OS) (\<lambda>node_id.
     bind_py (rd_set_nx_ex R LOCK_KEY node_id LOCK_TTL) (\<lambda>acquired.
     if \<not> acquired then bind_py (rd_get R LOCK_KEY) (\<lambda>owner. return_py False) else return_py True))"

definition release_lock :: "'w redis_client \<Rightarrow> ('w, unit) py" where
  "release_lock R = rd_delete R LOCK_KEY"

subsection \<open>The run: grouping\<close>

text \<open>
  \<open>get_repo_id(path, base, depth)\<close> on the configured values: a base that is not a string and a
  depth that is not a number (reached only for a path below the base) raise \<open>TypeError\<close>.
\<close>

definition repo_id_of :: "string \<Rightarrow> cfgval \<Rightarrow> cfgval \<Rightarrow> exn + string option" where
  "repo_id_of path base depth = (case base of
     CStr b \<Rightarrow>
       if \<not> startswith path (b @ ''/'') then Inr None
       else (case depth of
           CInt d \<Rightarrow> Inr (get_repo_id path b d)
         | CBool t \<Rightarrow> Inr (get_repo_id path b (of_bool t))
         | CStr _ \<Rightarrow> Inl TypeError)
   | _ \<Rightarrow> Inl TypeError)"

text \<open>The dictionary \<open>tasks\<close>, in insertion order; \<open>tasks.setdefault(repo_id, []).append(path)\<close>.\<close>

type_synonym tasks = "(string \<times> string list) list"

fun add_path :: "string \<Rightarrow> string \<Rightarrow> tasks \<Rightarrow> tasks" where
  "add_path rid path [] = [(rid, [path])]"
| "add_path rid path ((k, ps) # ts) = (if k = rid then (k, ps @ [path]) # ts else (k, ps) # add_path rid path ts)"

record scan =
  scan_tasks :: tasks
  scan_skipped :: int
  scan_total :: int

fun scan_items :: "cfgval \<Rightarrow> cfgval \<Rightarrow> string list \<Rightarrow> scan \<Rightarrow> exn + scan" where
  "scan_items base depth [] sc = Inr sc"
| "scan_items base depth (path # items) sc =
     bind_sum (repo_id_of path base depth) (\<lambda>rid.
       scan_items base depth items (case rid of
           None \<Rightarrow> sc\<lparr>scan_total := scan_total sc + 1, scan_skipped := scan_skipped sc + 1\<rparr>
         | Some rid \<Rightarrow> sc\<lparr>scan_total := scan_total sc + 1, scan_tasks := add_path rid path (scan_tasks sc)\<rparr>))"

definition scan_step ::
  "'w redis_client \<Rightarrow> cfgval \<Rightarrow> cfgval \<Rightarrow> int \<times> scan \<Rightarrow> ('w run_state, (int \<times> scan) + scan) py" where
  "scan_step R base depth = (\<lambda>(cursor, sc).
     bind_py (on_outside (rd_hscan R ''processing'' cursor 10000)) (\<lambda>(cursor, items).
     bind_py (lift_sum (scan_items base depth items sc)) (\<lambda>sc.
     return_py (if cursor = 0 then Inr sc else Inl (cursor, sc)))))"

definition scan_processing :: "'w redis_client \<Rightarrow> cfgval \<Rightarrow> cfgval \<Rightarrow> ('w run_state, scan) py" where
  "scan_processing R base depth =
     loop_py (scan_step R base depth) (0, \<lparr>scan_tasks = [], scan_skipped = 0, scan_total = 0\<rparr>)"

subsection \<open>The run: jobs and results\<close>

record totals =
  tot_backed_up :: int
  tot_skipped :: int
  tot_errors :: int
  failed_repos :: "string list"

text \<open>\<open>ThreadPoolExecutor(max_workers=workers)\<close> refuses a pool without workers.\<close>

definition check_workers :: "cfgval \<Rightarrow> exn + unit" where
  "check_workers workers = (case workers of
     CInt n \<Rightarrow> if n \<le> 0 then Inl ValueError else Inr ()
   | CBool b \<Rightarrow> if b then Inr () else Inl ValueError
   | CStr _ \<Rightarrow> Inl TypeError)"

text \<open>One completed future: its result is added up, an exception counts the whole repository.\<close>

definition collect_job ::
  "'w os \<Rightarrow> config \<Rightarrow> environ \<Rightarrow> cfgval \<Rightarrow> string \<times> string list \<Rightarrow> totals \<Rightarrow> ('w run_state, totals) py" where
  "collect_job OS cfg env restic = (\<lambda>(repo_id, paths) tot.
     try_except
       (bind_py (backup_repo OS cfg env restic repo_id paths) (\<lambda>res.
        return_py (tot\<lparr>
          tot_backed_up := tot_backed_up tot + res_backed_up res,
          tot_skipped := tot_skipped tot + res_skipped res,
          tot_errors := tot_errors tot + res_errors res,
          failed_repos := failed_repos tot @ (if res_errors res > 0 then [repo_id] else [])\<rparr>)))
       is_Exception
       (\<lambda>e. return_py (tot\<lparr>
          tot_errors := tot_errors tot + int (length paths),
          failed_repos := failed_repos tot @ [repo_id]\<rparr>)))"

fun run_pool ::
  "'w os \<Rightarrow> config \<Rightarrow> environ \<Rightarrow> cfgval \<Rightarrow> tasks \<Rightarrow> totals \<Rightarrow> ('w run_state, totals) py" where
  "run_pool OS cfg env restic [] tot = return_py tot"
| "run_pool OS cfg env restic (job # jobs) tot =
     bind_py (collect_job OS cfg env restic job tot) (\<lambda>tot. run_pool OS cfg env restic jobs tot)"

text \<open>The paths of the failed repositories go back to \<open>pending\<close>.\<close>

definition restore_cmds :: "tasks \<Rightarrow> string list \<Rightarrow> redis_cmd list" where
  "restore_cmds ts failed =
     concat (map (\<lambda>rid. map (\<lambda>p. Hset ''pending'' (JStr p) (JStr ''retry'')) (the (map_of ts rid))) failed)"

definition restore_failed :: "'w redis_client \<Rightarrow> tasks \<Rightarrow> string list \<Rightarrow> ('w, unit) py" where
  "restore_failed R ts failed =
     (if failed \<noteq> [] then rd_pipeline R (restore_cmds ts failed) else return_py ())"

subsection \<open>The run: record of the result\<close>

text \<open>\<open>int(x)\<close> and \<open>f"{x:.1f}"\<close> on the exact value of a float (ties to the even digit).\<close>

definition trunc :: "rat \<Rightarrow> int" where
  "trunc q = (if 0 \<le> q then \<lfloor>q\<rfloor> else \<lceil>q\<rceil>)"

definition round_even :: "rat \<Rightarrow> int" where
  "round_even q = (let f = \<lfloor>q\<rfloor>; d = q - of_int f
     in if d < 1/2 \<or> d = 1/2 \<and> even f then f else f + 1)"

definition fmt_1f :: "rat \<Rightarrow> string" where
  "fmt_1f q = (let n = round_even (\<bar>q\<bar> * 10)
     in (if q < 0 then ''-'' else []) @ show_int (n div 10) @ ''.'' @ show_int (n mod 10))"

definition record_run :: "'w redis_client \<Rightarrow> 'w os \<Rightarrow> rat \<Rightarrow> tasks \<Rightarrow> totals \<Rightarrow> ('w, unit) py" where
  "record_run R OS start_time ts tot =
     bind_py (os_time OS) (\<lambda>t. let duration = t - start_time in
     bind_py (os_time OS) (\<lambda>now.
     rd_hset_map R ''backup:last_run''
       [(''timestamp'', show_int (trunc now)),
        (''backed_up'', show_int (tot_backed_up tot)),
        (''skipped'', show_int (tot_skipped tot)),
        (''errors'', show_int (tot_errors tot)),
        (''repos'', show_int (int (length ts))),
        (''duration'', fmt_1f duration)]))"

subsection \<open>The run\<close>

text \<open>\<open>True\<close> when there is something in \<open>processing\<close>: left by an interrupted run, or just moved there.\<close>

definition take_pending :: "'w redis_client \<Rightarrow> ('w, bool) py" where
  "take_pending R =
     bind_py (rd_exists R ''processing'') (\<lambda>left.
     if left then return_py True
     else try_except (seq_py (rd_rename R ''pending'' ''processing'') (return_py True))
            (\<lambda>e. e = RedisResponseError) (\<lambda>e. return_py False))"

definition run_jobs ::
  "'w os \<Rightarrow> config \<Rightarrow> (tasks \<Rightarrow> tasks) \<Rightarrow> tasks \<Rightarrow> ('w run_state, totals) py" where
  "run_jobs OS cfg sched ts =
     bind_py (on_outside (os_environ OS)) (\<lambda>environ.
     bind_py (lift_sum (restic_env cfg environ)) (\<lambda>env.
     bind_py (lift_sum (restic_bin cfg)) (\<lambda>restic.
     seq_py (modify_py (\<lambda>s. s\<lparr>initialized := [], init_pending := []\<rparr>))
     (bind_py (lift_sum (cfg_get cfg ''backup'' ''workers'' (CInt 4))) (\<lambda>workers.
      bind_py (lift_sum (check_workers workers)) (\<lambda>_.
      run_pool OS cfg env restic (sched ts)
        \<lparr>tot_backed_up = 0, tot_skipped = 0, tot_errors = 0, failed_repos = []\<rparr>))))))"

definition run_backup_inner ::
  "'w redis_client \<Rightarrow> 'w os \<Rightarrow> (tasks \<Rightarrow> tasks) \<Rightarrow> config \<Rightarrow> rat \<Rightarrow> ('w run_state, unit) py" where
  "run_backup_inner R OS sched cfg start_time =
     bind_py (on_outside (take_pending R)) (\<lambda>some.
     if \<not> some then return_py () else
     bind_py (lift_sum (cfg_item cfg ''backup'' ''base_path'')) (\<lambda>base.
     bind_py (lift_sum (cfg_item cfg ''backup'' ''repo_depth'')) (\<lambda>depth.
     bind_py (scan_processing R base depth) (\<lambda>sc.
     bind_py (run_jobs OS cfg sched (scan_tasks sc)) (\<lambda>tot.
     seq_py (on_outside (restore_failed R (scan_tasks sc) (failed_repos tot)))
     (seq_py (on_outside (rd_delete R ''processing''))
       (on_outside (record_run R OS start_time (scan_tasks sc) tot))))))))"

definition run_backup ::
  "'w redis_client \<Rightarrow> 'w os \<Rightarrow> (tasks \<Rightarrow> tasks) \<Rightarrow> config \<Rightarrow> ('w run_state, unit) py" where
  "run_backup R OS sched cfg =
     bind_py (on_outside (acquire_lock R OS)) (\<lambda>ok.
     if \<not> ok then return_py () else
     bind_py (on_outside (os_time OS)) (\<lambda>start_time.
     try_finally (run_backup_inner R OS sched cfg start_time) (on_outside (release_lock R))))"

subsection \<open>main\<close>

text \<open>The connection attempts still to make; the last one exits with status 1.\<close>

fun connect_attempts :: "'w redis_client \<Rightarrow> 'w os \<Rightarrow> config \<Rightarrow> int list \<Rightarrow> ('w, unit) py" where
  "connect_attempts R OS cfg [] = return_py ()"
| "connect_attempts R OS cfg (attempt # rest) =
     bind_py (try_except
       (bind_py (lift_sum (cfg_item cfg ''db'' ''redis_url'')) (\<lambda>url.
        seq_py (rd_from_url R url) (seq_py (rd_ping R) (return_py True))))
       is_connection_error
       (\<lambda>e. if attempt = max_retries then raise_py (SystemExit 1)
            else seq_py (os_sleep OS (attempt * 10)) (return_py False)))
     (\<lambda>connected. if connected then return_py () else connect_attempts R OS cfg rest)"

definition backup_main ::
  "'w redis_client \<Rightarrow> 'w os \<Rightarrow> (tasks \<Rightarrow> tasks) \<Rightarrow> config \<Rightarrow> ('w run_state, unit) py" where
  "backup_main R OS sched cfg =
     seq_py (on_outside (connect_attempts R OS cfg [1..max_retries]))
     (bind_py (on_outside (rd_hlen R ''pending'')) (\<lambda>n. run_backup R OS sched cfg))"

end
