(* ===== verification/BackupJobs.thy ===== *)
theory BackupJobs
  imports Backup
begin

text \<open>
  Facts about the parts of a backup run: the grouping of the scanned paths into one job per
  repository, the counts a job and the pool report, and the contract of the operating system
  under which a job without errors has handed every path to restic.
\<close>

lemma wp_on_outside [wp_rules]:
  "wp d (on_outside m) Q E s =
     wp d m (\<lambda>x w. Q x (s\<lparr>outside := w\<rparr>)) (\<lambda>e w. E e (s\<lparr>outside := w\<rparr>)) (outside s)"
  by (auto simp: wp_def on_outside_def split: option.split sum.split)

lemma wp_outside_any: "(\<And>x w. Q x (s\<lparr>outside := w\<rparr>)) \<Longrightarrow> (\<And>e w. E e (s\<lparr>outside := w\<rparr>)) \<Longrightarrow>
    wp True (on_outside m) Q E s"
  unfolding wp_on_outside by (rule wp_any)

subsection \<open>Grouping\<close>

definition paths_of :: "tasks \<Rightarrow> string \<Rightarrow> string list" where
  "paths_of ts rid = (case map_of ts rid of None \<Rightarrow> [] | Some ps \<Rightarrow> ps)"

lemma add_path_lookup: "map_of (add_path rid p ts) k = (if k = rid then Some (paths_of ts rid @ [p]) else map_of ts k)"
  by (induction rid p ts rule: add_path.induct) (auto simp: paths_of_def)

lemma add_path_keys: "map fst (add_path rid p ts) =
    (if rid \<in> set (map fst ts) then map fst ts else map fst ts @ [rid])"
  by (induction rid p ts rule: add_path.induct) auto

text \<open>
  \<open>grouped f xs sc\<close>: the scan has seen the paths \<open>xs\<close>, where \<open>f\<close> gives the repository of a path:
  one job per repository, with its paths in the order they were seen, and exact counts.
\<close>

definition grouped :: "(string \<Rightarrow> string option) \<Rightarrow> string list \<Rightarrow> scan \<Rightarrow> bool" where
  "grouped f xs sc \<longleftrightarrow>
     distinct (map fst (scan_tasks sc)) \<and>
     (\<forall>rid. map_of (scan_tasks sc) rid =
        (let ps = filter (\<lambda>p. f p = Some rid) xs in if ps = [] then None else Some ps)) \<and>
     scan_skipped sc = int (length (filter (\<lambda>p. f p = None) xs)) \<and>
     scan_total sc = int (length xs)"

lemma grouped_Nil: "grouped f [] \<lparr>scan_tasks = [], scan_skipped = 0, scan_total = 0\<rparr>"
  by (simp add: grouped_def)

lemma grouped_snoc:
  assumes "grouped f xs sc"
  shows "grouped f (xs @ [p]) (case f p of
      None \<Rightarrow> sc\<lparr>scan_total := scan_total sc + 1, scan_skipped := scan_skipped sc + 1\<rparr>
    | Some rid \<Rightarrow> sc\<lparr>scan_total := scan_total sc + 1, scan_tasks := add_path rid p (scan_tasks sc)\<rparr>)"
proof (cases "f p")
  case None
  with assms show ?thesis by (auto simp: grouped_def)
next
  case (Some rid)
  from assms have "paths_of (scan_tasks sc) rid = filter (\<lambda>p. f p = Some rid) xs"
    by (simp add: grouped_def paths_of_def Let_def)
  with assms Some show ?thesis
    by (auto simp: grouped_def add_path_lookup add_path_keys Let_def)
qed

definition repo_fun :: "cfgval \<Rightarrow> cfgval \<Rightarrow> string \<Rightarrow> string option" where
  "repo_fun base depth p = (case repo_id_of p base depth of Inr rid \<Rightarrow> rid | Inl _ \<Rightarrow> None)"

lemma scan_items_grouped:
  assumes "scan_items base depth items sc = Inr sc'" and "grouped (repo_fun base depth) xs sc"
  shows "grouped (repo_fun base depth) (xs @ items) sc' \<and> (\<forall>p \<in> set items. repo_id_of p base depth = Inr (repo_fun base depth p))"
  using assms
proof (induction items arbitrary: xs sc)
  case (Cons p items)
  from Cons.prems(1) obtain rid where rid: "repo_id_of p base depth = Inr rid"
    by (cases "repo_id_of p base depth") auto
  then have f: "repo_fun base depth p = rid" by (simp add: repo_fun_def)
  from Cons.IH [OF _ grouped_snoc [OF Cons.prems(2), of p]] Cons.prems(1) show ?case
    by (simp add: f rid)
qed auto

lemma grouped_paths: "grouped f xs sc \<Longrightarrow> p \<in> set xs \<Longrightarrow> f p = Some rid \<Longrightarrow>
    \<exists>ps. (rid, ps) \<in> set (scan_tasks sc) \<and> p \<in> set ps"
  by (auto simp: grouped_def Let_def filter_empty_conv split: if_splits dest!: spec [of _ rid] map_of_SomeD)

subsection \<open>Counts\<close>

definition accounts :: "nat \<Rightarrow> repo_result \<Rightarrow> bool" where
  "accounts n res \<longleftrightarrow> res_total res = int n \<and>
     res_backed_up res + res_skipped res + res_errors res = res_total res \<and>
     0 \<le> res_backed_up res \<and> 0 \<le> res_skipped res \<and> 0 \<le> res_errors res \<and>
     (res_backed_up res = 0 \<or> res_errors res = 0)"

lemma upto_retries: "[1..max_retries] = [1, 2, 3]"
  by (simp add: max_retries_def upto.simps)

lemma attempts_counts:
  "wp True (backup_attempts OS restic f url env n [1..max_retries]) (\<lambda>r _. r = (n, 0) \<or> r = (0, n)) (\<lambda>_ _. True) s"
  unfolding upto_retries
  by (auto simp: wp_bind wp_seq wp_return wp_lift_sum max_retries_def intro!: wp_outside_any split: sum.split)

lemma filter_py_length: "wp True (filter_py f xs) (\<lambda>ys _. length ys \<le> length xs) (\<lambda>_ _. True) s"
proof (induction xs arbitrary: s)
  case (Cons x xs)
  have "wp True (f x) (\<lambda>b. wp True (filter_py f xs) (\<lambda>ys _. length ys \<le> length xs) (\<lambda>_ _. True)) (\<lambda>_ _. True) s"
    using Cons by (auto simp: wp_def [of True "f x"] split: option.split sum.split)
  then show ?case
    by (auto simp: wp_bind wp_return elim!: wp_mono)
qed (simp add: wp_return)

lemma backup_repo_accounts:
  "wp True (backup_repo OS cfg env restic rid paths) (\<lambda>res _. accounts (length paths) res) (\<lambda>_ _. True) s"
proof -
  have ens: "wp True (ensure OS restic url env) (\<lambda>_ _. True) (\<lambda>_ _. True) s" for url s
    by (auto simp: wp_def split: option.split sum.split)
  show ?thesis
    unfolding backup_repo_def Let_def
    by (auto simp: wp_bind wp_seq wp_return wp_lift_sum wp_try_finally accounts_def
        intro!: wp_mono [OF ens] wp_mono [OF filter_py_length] wp_outside_any wp_mono [OF attempts_counts]
        split: sum.split)
qed

lemma run_pool_accounts:
  "wp True (run_pool OS cfg env restic jobs tot)
     (\<lambda>tot' _. tot_backed_up tot' + tot_skipped tot' + tot_errors tot' =
        tot_backed_up tot + tot_skipped tot + tot_errors tot + int (length (concat (map snd jobs))))
     (\<lambda>_ _. True) s"
proof (induction jobs arbitrary: tot s)
  case (Cons job jobs)
  obtain rid paths where job: "job = (rid, paths)" by (cases job)
  have one: "wp True (collect_job OS cfg env restic job tot)
      (\<lambda>tot' _. tot_backed_up tot' + tot_skipped tot' + tot_errors tot' =
        tot_backed_up tot + tot_skipped tot + tot_errors tot + int (length paths)) (\<lambda>_ _. True) t" for tot t
    unfolding collect_job_def job
    by (auto simp: wp_try_except wp_bind wp_return accounts_def intro!: wp_mono [OF backup_repo_accounts])
  show ?case
    unfolding run_pool.simps wp_bind
    by (rule wp_mono [OF one]) (auto simp: job intro!: wp_mono [OF Cons.IH])
qed (simp add: wp_return)

subsection \<open>The contract of the operating system\<close>

text \<open>
  An audit of the run: the contents of the files it wrote, the paths named in the list of a
  restic run that ended with status 0 or 3, the paths that did not exist when asked for, and
  the paths Redis took back into \<open>pending\<close>.
\<close>

record audit =
  files :: "string \<rightharpoonup> string"
  saved :: "string set"
  gone :: "string set"
  requeued :: "string set"

definition audit_le :: "audit \<Rightarrow> audit \<Rightarrow> bool" where
  "audit_le a b \<longleftrightarrow> saved a \<subseteq> saved b \<and> gone a \<subseteq> gone b \<and> requeued a \<subseteq> requeued b"

text \<open>A call of the operating system leaves Redis alone, and raises nothing outside \<open>Exception\<close>.\<close>

definition os_call :: "('w \<Rightarrow> redis_db) \<Rightarrow> (redis_db \<Rightarrow> redis_db \<Rightarrow> bool) \<Rightarrow> ('w \<Rightarrow> audit) \<Rightarrow>
    (audit \<Rightarrow> exn + 'a \<Rightarrow> audit \<Rightarrow> bool) \<Rightarrow> ('w, 'a) py \<Rightarrow> bool" where
  "os_call view rely audit eff m \<longleftrightarrow>
     atomic view rely (\<lambda>v r v'. v' = v \<and> (\<forall>e. r = Inl e \<longrightarrow> is_Exception e)) m \<and> atomic audit (=) eff m"

definition backup_args :: "string \<Rightarrow> string \<Rightarrow> string list" where
  "backup_args list_file url = [''backup'', ''--files-from'', list_file, ''-r'', url, ''--tag'', ''incremental'']"

definition run_eff :: "string list \<Rightarrow> audit \<Rightarrow> exn + int \<times> string \<times> string \<Rightarrow> audit \<Rightarrow> bool" where
  "run_eff args a r a' \<longleftrightarrow> audit_le a a' \<and> files a' = files a \<and>
     (\<forall>rc out err f url text. r = Inr (rc, out, err) \<and> rc \<in> {0, 3} \<and> args = backup_args f url \<and>
        files a f = Some text \<longrightarrow> set (split_on (CHR 0x0A) text) \<subseteq> saved a')"

definition exists_eff :: "string \<Rightarrow> audit \<Rightarrow> exn + bool \<Rightarrow> audit \<Rightarrow> bool" where
  "exists_eff p a r a' \<longleftrightarrow> audit_le a a' \<and> files a' = files a \<and> (r = Inr False \<longrightarrow> p \<in> gone a')"

definition file_eff :: "string \<Rightarrow> string \<Rightarrow> audit \<Rightarrow> exn + unit \<Rightarrow> audit \<Rightarrow> bool" where
  "file_eff name text a r a' \<longleftrightarrow> audit_le a a' \<and> (r = Inr () \<longrightarrow> files a' name = Some text)"

abbreviation same_files :: "audit \<Rightarrow> exn + 'a \<Rightarrow> audit \<Rightarrow> bool" where
  "same_files a r a' \<equiv> audit_le a a' \<and> files a' = files a"

locale backup_os = redis_view view rely
  for view :: "'w \<Rightarrow> redis_db" and rely +
  fixes OS :: "'w os" and audit :: "'w \<Rightarrow> audit"
  assumes run_call: "os_call view rely audit (run_eff args) (os_run OS restic args env timeout)"
    and exists_call: "os_call view rely audit (exists_eff p) (os_exists OS p)"
    and mktemp_call: "os_call view rely audit (\<lambda>a r a'. audit_le a a') (os_mktemp OS)"
    and write_call: "os_call view rely audit (file_eff name text) (os_write OS name text)"
    and unlink_call: "os_call view rely audit (\<lambda>a r a'. audit_le a a') (os_unlink OS name)"
    and sleep_call: "os_call view rely audit same_files (os_sleep OS secs)"
    and time_call: "os_call view rely audit (\<lambda>a r a'. audit_le a a' \<and> (\<exists>t. r = Inr t)) (os_time OS)"
    and hostname_call: "os_call view rely audit same_files (os_hostname OS)"
    and environ_call: "os_call view rely audit same_files (os_environ OS)"

text \<open>What has happened between two states of a run, Redis being touched by others only.\<close>

definition grows :: "('w \<Rightarrow> redis_db) \<Rightarrow> (redis_db \<Rightarrow> redis_db \<Rightarrow> bool) \<Rightarrow> ('w \<Rightarrow> audit) \<Rightarrow>
    'w run_state \<Rightarrow> 'w run_state \<Rightarrow> bool" where
  "grows view rely audit s s' \<longleftrightarrow> rely (view (outside s)) (view (outside s')) \<and>
     audit_le (audit (outside s)) (audit (outside s'))"

lemma audit_le_refl [simp]: "audit_le a a"
  by (simp add: audit_le_def)

lemma audit_le_trans: "audit_le a b \<Longrightarrow> audit_le b c \<Longrightarrow> audit_le a c"
  by (auto simp: audit_le_def)

lemma os_call_wp:
  assumes "os_call view rely audit eff m"
    and "\<And>x w. rely (view (outside s)) (view w) \<Longrightarrow> eff (audit (outside s)) (Inr x) (audit w) \<Longrightarrow> Q x (s\<lparr>outside := w\<rparr>)"
    and "\<And>e w. rely (view (outside s)) (view w) \<Longrightarrow> is_Exception e \<Longrightarrow> eff (audit (outside s)) (Inl e) (audit w) \<Longrightarrow>
      E e (s\<lparr>outside := w\<rparr>)"
  shows "wp d (on_outside m) Q E s"
proof -
  from assms(1) obtain r w v where m: "m (outside s) = Some (r, w)" and "rely (view (outside s)) v" "view w = v"
    "\<forall>e. r = Inl e \<longrightarrow> is_Exception e" and "eff (audit (outside s)) r (audit w)"
    unfolding os_call_def atomic_def by (metis (no_types, lifting) fst_conv option.inject prod.inject)
  with assms(2,3) show ?thesis
    by (cases r) (auto simp: wp_def on_outside_def)
qed

lemma grows_frame [simp]:
  "grows view rely audit s (t\<lparr>initialized := xs\<rparr>) = grows view rely audit s t"
  "grows view rely audit s (t\<lparr>init_pending := xs\<rparr>) = grows view rely audit s t"
  "grows view rely audit (s\<lparr>initialized := xs\<rparr>) t = grows view rely audit s t"
  "grows view rely audit (s\<lparr>init_pending := xs\<rparr>) t = grows view rely audit s t"
  by (simp_all add: grows_def)

lemma grows_gone: "grows view rely audit s t \<Longrightarrow> p \<in> gone (audit (outside s)) \<Longrightarrow> p \<in> gone (audit (outside t))"
  and grows_saved: "grows view rely audit s t \<Longrightarrow> p \<in> saved (audit (outside s)) \<Longrightarrow> p \<in> saved (audit (outside t))"
  by (auto simp: grows_def audit_le_def)

lemma run_eff_backup:
  "run_eff [''backup'', ''--files-from'', f, ''-r'', url, ''--tag'', ''incremental''] a (Inr (rc, out, err)) a' \<Longrightarrow>
     rc \<in> {0, 3} \<Longrightarrow> files a f = Some text \<Longrightarrow> set (split_on (CHR 0x0A) text) \<subseteq> saved a'"
  by (auto simp: run_eff_def backup_args_def)

lemma run_eff_files: "run_eff args a r a' \<Longrightarrow> files a' = files a"
  by (simp add: run_eff_def)

lemma decode_utf8_error: "decode_utf8 b = Inl e \<Longrightarrow> is_Exception e"
  by (auto simp: decode_utf8_def split: if_splits)

context redis_view
begin

lemma grows_refl [simp]: "grows view rely audit s s"
  by (simp add: grows_def rely_refl)

lemma grows_trans: "grows view rely audit s t \<Longrightarrow> grows view rely audit t u \<Longrightarrow> grows view rely audit s u"
  by (auto simp: grows_def intro: rely_trans audit_le_trans)

lemma grows_call:
  assumes "os_call view rely audit eff m" and "\<And>a r a'. eff a r a' \<Longrightarrow> audit_le a a'" and "grows view rely audit s t"
  shows "wp d (on_outside m)
     (\<lambda>x t'. grows view rely audit s t' \<and> eff (audit (outside t)) (Inr x) (audit (outside t')))
     (\<lambda>e t'. grows view rely audit s t' \<and> is_Exception e) t"
  by (rule os_call_wp [OF assms(1)])
     (use assms(3) in \<open>auto simp: grows_def intro: rely_trans audit_le_trans dest!: assms(2)\<close>)

end

context backup_os
begin

lemma run_grows: "grows view rely audit s t \<Longrightarrow> wp d (on_outside (os_run OS restic args env timeout))
     (\<lambda>x t'. grows view rely audit s t' \<and> run_eff args (audit (outside t)) (Inr x) (audit (outside t')))
     (\<lambda>e t'. grows view rely audit s t' \<and> is_Exception e) t"
  by (rule grows_call [OF run_call]) (auto simp: run_eff_def)

lemma ensure_grows:
  "wp False (ensure OS restic url env) (\<lambda>_. grows view rely audit s) (\<lambda>e t. grows view rely audit s t \<and> is_Exception e) s"
  by (cases "url \<in> set (initialized s)")
     (auto simp: ensure_def wp_bind wp_seq wp_get wp_return wp_modify wp_try_finally wp_lift_sum
      intro!: wp_mono [OF run_grows] dest!: decode_utf8_error split: sum.split)

text \<open>The filter keeps a path or has seen it missing.\<close>

lemma existing_grows:
  "wp False (filter_py (\<lambda>p. on_outside (os_exists OS p)) paths)
     (\<lambda>ps t. grows view rely audit s t \<and> set ps \<subseteq> set paths \<and> set paths \<subseteq> set ps \<union> gone (audit (outside t)))
     (\<lambda>e t. grows view rely audit s t \<and> is_Exception e) s"
proof (induction paths arbitrary: s)
  case (Cons p paths)
  have here: "wp False (on_outside (os_exists OS p))
      (\<lambda>b t. grows view rely audit s t \<and> exists_eff p (audit (outside s)) (Inr b) (audit (outside t)))
      (\<lambda>e t. grows view rely audit s t \<and> is_Exception e) s" for s
    by (rule grows_call [OF exists_call]) (auto simp: exists_eff_def)
  show ?case
    unfolding filter_py.simps wp_bind
    by (rule wp_mono [OF here], rule wp_mono [OF Cons.IH])
       (auto simp: wp_return exists_eff_def intro: grows_trans grows_gone)
qed (simp add: wp_return)

text \<open>
  A retry loop over a list file: success means that restic saw every line of the file.
\<close>

lemma attempts_grow:
  assumes "grows view rely audit s t" and "files (audit (outside t)) f = Some text"
  shows "wp False (backup_attempts OS restic f url env n attempts)
     (\<lambda>(done, errs) t'. grows view rely audit s t' \<and>
        (errs = n \<or> attempts = [] \<or> last attempts < max_retries \<or> set (split_on (CHR 0x0A) text) \<subseteq> saved (audit (outside t'))))
     (\<lambda>e t'. grows view rely audit s t' \<and> is_Exception e) t"
  using assms
proof (induction attempts arbitrary: t)
  case (Cons attempt rest)
  have nap: "wp False (on_outside (os_sleep OS secs))
      (\<lambda>_ t'. grows view rely audit s t' \<and> files (audit (outside t')) f = files (audit (outside u)) f)
      (\<lambda>e t'. grows view rely audit s t' \<and> is_Exception e) u" if "grows view rely audit s u" for secs u
    by (rule wp_mono [OF grows_call [OF sleep_call _ that]]) auto
  show ?case
    unfolding backup_attempts.simps wp_bind
  proof (rule wp_mono [OF run_grows [OF Cons.prems(1)]], clarify)
    fix rc out err t'
    assume t': "grows view rely audit s t'"
      and eff: "run_eff [''backup'', ''--files-from'', f, ''-r'', url, ''--tag'', ''incremental'']
        (audit (outside t)) (Inr (rc, out, err)) (audit (outside t'))"
    have files: "files (audit (outside t')) f = Some text"
      using run_eff_files [OF eff] Cons.prems(2) by simp
    note IH = Cons.IH [OF t' files]
    show "wp False (if rc \<in> {0, 3} then return_py (n, 0)
          else bind_py (lift_sum (decode_utf8 err)) (\<lambda>_.
            if attempt < max_retries
            then seq_py (on_outside (os_sleep OS (attempt * 10))) (backup_attempts OS restic f url env n rest)
            else bind_py (backup_attempts OS restic f url env n rest) (\<lambda>(done, _). return_py (done, n))))
        (\<lambda>(done, errs) t'. grows view rely audit s t' \<and>
          (errs = n \<or> attempt # rest = [] \<or> last (attempt # rest) < max_retries \<or>
           set (split_on (CHR 0x0A) text) \<subseteq> saved (audit (outside t'))))
        (\<lambda>e t'. grows view rely audit s t' \<and> is_Exception e) t'"
      using run_eff_backup [OF eff _ Cons.prems(2)] t' files
      by (auto simp: wp_bind wp_seq wp_return wp_lift_sum intro: decode_utf8_error
          intro!: wp_mono [OF nap] wp_mono [OF Cons.IH] wp_mono [OF IH] split: sum.split if_splits)
  qed auto
qed (simp add: wp_return)

end

text \<open>
  A job either fails, and says so, or every path it was given was missing or stood on the
  list of a successful restic run; a path with a newline is torn apart on that list.
\<close>

definition handled :: "audit \<Rightarrow> string set" where
  "handled a = saved a \<union> gone a \<union> {p. CHR 0x0A \<in> set p}"

text \<open>
  The pool raises nothing; a job it does not report as failed has handled all its paths.
\<close>

definition jobs_settled :: "tasks \<Rightarrow> string list \<Rightarrow> audit \<Rightarrow> bool" where
  "jobs_settled jobs failed a \<longleftrightarrow> (\<forall>(rid, ps) \<in> set jobs. rid \<in> set failed \<or> set ps \<subseteq> handled a)"

lemma grows_handled: "grows view rely audit s t \<Longrightarrow> handled (audit (outside s)) \<subseteq> handled (audit (outside t))"
  by (auto simp: handled_def grows_def audit_le_def)

context backup_os
begin

lemma list_file_grows:
  assumes "existing \<noteq> []" and n: "n = int (length existing)" and "set paths \<subseteq> set existing \<union> gone (audit (outside s))"
  shows "wp False (bind_py (on_outside (os_mktemp OS)) (\<lambda>list_file.
        seq_py (on_outside (os_write OS list_file (join_on (CHR 0x0A) existing)))
        (try_finally
          (bind_py (backup_attempts OS restic list_file url env n [1..max_retries]) (\<lambda>(done, errs). return_py (f done errs)))
          (on_outside (os_unlink OS list_file)))))
     (\<lambda>res t. grows view rely audit s t \<and> (\<exists>done errs. res = f done errs \<and>
        (errs = n \<or> set paths \<subseteq> handled (audit (outside t)))))
     (\<lambda>e t. grows view rely audit s t \<and> is_Exception e) s"
proof -
  let ?text = "join_on (CHR 0x0A) existing"
  have temp: "wp False (on_outside (os_mktemp OS)) (\<lambda>_. grows view rely audit s)
      (\<lambda>e t. grows view rely audit s t \<and> is_Exception e) s"
    by (rule wp_mono [OF grows_call [OF mktemp_call]]) auto
  have wrote: "wp False (on_outside (os_write OS name ?text))
      (\<lambda>_ t. grows view rely audit s t \<and> files (audit (outside t)) name = Some ?text)
      (\<lambda>e t. grows view rely audit s t \<and> is_Exception e) t" if "grows view rely audit s t" for t name
    by (rule wp_mono [OF grows_call [OF write_call _ that]]) (auto simp: file_eff_def)
  have away: "wp False (on_outside (os_unlink OS name)) (\<lambda>_ t'. grows view rely audit s t' \<and> grows view rely audit t t')
      (\<lambda>e t. grows view rely audit s t \<and> is_Exception e) t" if "grows view rely audit s t" for t name
    using grows_trans [OF that]
    by (auto intro!: wp_mono [OF grows_call [OF unlink_call _ grows_refl]])
  have all: "set paths \<subseteq> handled (audit (outside t))"
    if "grows view rely audit s t" "set (split_on (CHR 0x0A) ?text) \<subseteq> saved (audit (outside t))" for t
    using that assms(3) grows_gone [OF that(1)] split_join_mem [of _ existing "CHR 0x0A"]
    by (fastforce simp: handled_def)
  have last: "\<not> last [1..max_retries] < max_retries" "[1..max_retries] \<noteq> []"
    unfolding upto_retries by (simp_all add: max_retries_def)
  define good where "good res t \<longleftrightarrow> (\<exists>done errs. res = f done errs \<and> (errs = n \<or> set paths \<subseteq> handled (audit (outside t))))"
    for res and t :: "'w run_state"
  have goodI: "good (f k errs) t" if "errs = n \<or> set paths \<subseteq> handled (audit (outside t))" for k errs t
    using that by (auto simp: good_def)
  have good_mono: "good res u" if "good res t" "grows view rely audit t u" for res t u
    using that grows_handled [OF that(2)] by (fastforce simp: good_def)
  have tried: "wp False (bind_py (backup_attempts OS restic name url env n [1..max_retries]) (\<lambda>(done, errs). return_py (f done errs)))
      (\<lambda>res t. grows view rely audit s t \<and> good res t) (\<lambda>e t. grows view rely audit s t \<and> is_Exception e) t"
    if "grows view rely audit s t \<and> files (audit (outside t)) name = Some ?text" for t name
    unfolding wp_bind
    by (rule wp_mono [OF attempts_grow [OF conjunct1 [OF that] conjunct2 [OF that]]])
       (use last in \<open>auto simp: wp_return intro!: goodI dest: subsetD [OF all]\<close>)
  have final: "wp False (try_finally (bind_py (backup_attempts OS restic name url env n [1..max_retries])
        (\<lambda>(done, errs). return_py (f done errs))) (on_outside (os_unlink OS name)))
      (\<lambda>res t. grows view rely audit s t \<and> good res t) (\<lambda>e t. grows view rely audit s t \<and> is_Exception e) t"
    if "grows view rely audit s t \<and> files (audit (outside t)) name = Some ?text" for t name
    unfolding wp_try_finally
    by (rule wp_mono [OF tried [OF that]]) (auto intro!: wp_mono [OF away] intro: good_mono)
  show ?thesis
    unfolding good_def [symmetric]
    by (rule wp_bindI [OF temp], rule wp_seqI [OF wrote], assumption, rule final)
qed

lemma backup_repo_grows:
  "wp False (backup_repo OS cfg env restic rid paths)
     (\<lambda>res t. grows view rely audit s t \<and> (res_errors res \<le> 0 \<longrightarrow> set paths \<subseteq> handled (audit (outside t))))
     (\<lambda>e t. grows view rely audit s t \<and> is_Exception e) s"
proof (cases "repo_url cfg rid")
  case (Inl e)
  then have "is_Exception e"
    by (auto simp: repo_url_def cfg_item_def cfg_get_def bind_sum_def split: sum.splits option.splits)
  with Inl show ?thesis by (simp add: backup_repo_def wp_rules)
next
  case (Inr url)
  let ?ok = "\<lambda>res t. grows view rely audit s t \<and> (res_errors res \<le> 0 \<longrightarrow> set paths \<subseteq> handled (audit (outside t)))"
  let ?bad = "\<lambda>e t. grows view rely audit s t \<and> is_Exception e"
  define job where "job existing = (let n = int (length existing); tot = int (length paths) in
     if existing = [] then return_py \<lparr>res_total = tot, res_backed_up = 0, res_skipped = tot - n, res_errors = 0\<rparr> else
     bind_py (on_outside (os_mktemp OS)) (\<lambda>list_file.
     seq_py (on_outside (os_write OS list_file (join_on (CHR 0x0A) existing)))
     (try_finally
       (bind_py (backup_attempts OS restic list_file url env n [1..max_retries]) (\<lambda>(done, errs).
        return_py \<lparr>res_total = tot, res_backed_up = done, res_skipped = tot - n, res_errors = errs\<rparr>))
       (on_outside (os_unlink OS list_file)))))" for existing
  have job: "wp False (job existing) ?ok ?bad t"
    if "grows view rely audit s t" "set paths \<subseteq> set existing \<union> gone (audit (outside t))" for existing t
  proof (cases "existing = []")
    case True
    with that show ?thesis by (auto simp: job_def Let_def wp_return handled_def)
  next
    case False
    with that grows_trans [OF that(1)] show ?thesis
      unfolding job_def Let_def
      by (auto intro!: wp_mono [OF list_file_grows [OF False refl that(2)]])
  qed
  show ?thesis
    using Inr unfolding backup_repo_def Let_def
    by (auto simp: wp_bind wp_lift_sum wp_return job_def [unfolded Let_def, symmetric] intro: grows_trans
        intro!: wp_mono [OF ensure_grows] wp_mono [OF existing_grows] job)
qed

lemma collect_job_grows:
  "wp False (collect_job OS cfg env restic (rid, paths) tot)
     (\<lambda>tot' t. grows view rely audit s t \<and>
        (failed_repos tot' = failed_repos tot @ [rid] \<or>
         failed_repos tot' = failed_repos tot \<and> set paths \<subseteq> handled (audit (outside t))))
     (\<lambda>_ _. False) s"
  by (auto simp: collect_job_def wp_try_except wp_bind wp_return intro!: wp_mono [OF backup_repo_grows])

lemma run_pool_grows:
  "wp False (run_pool OS cfg env restic jobs tot)
     (\<lambda>tot' t. grows view rely audit s t \<and> set (failed_repos tot) \<subseteq> set (failed_repos tot') \<and>
        set (failed_repos tot') \<subseteq> set (failed_repos tot) \<union> fst ` set jobs \<and>
        jobs_settled jobs (failed_repos tot') (audit (outside t)))
     (\<lambda>_ _. False) s"
proof (induction jobs arbitrary: tot s)
  case Nil
  show ?case by (simp add: wp_return jobs_settled_def)
next
  case (Cons job jobs)
  obtain rid paths where job: "job = (rid, paths)" by (cases job)
  show ?case
    unfolding run_pool.simps wp_bind job
    by (rule wp_mono [OF collect_job_grows], rule wp_mono [OF Cons.IH])
       (auto simp: jobs_settled_def intro: grows_trans subsetD [OF grows_handled])
qed

lemma run_jobs_grows:
  assumes "set (sched ts) = set ts"
  shows "wp False (run_jobs OS cfg sched ts)
     (\<lambda>tot t. grows view rely audit s t \<and> set (failed_repos tot) \<subseteq> fst ` set ts \<and>
        jobs_settled ts (failed_repos tot) (audit (outside t)))
     (\<lambda>_ t. grows view rely audit s t) s"
proof -
  have env: "wp False (on_outside (os_environ OS)) (\<lambda>_. grows view rely audit s) (\<lambda>_. grows view rely audit s) s"
    by (rule wp_mono [OF grows_call [OF environ_call]]) auto
  have same: "jobs_settled (sched ts) = jobs_settled ts"
    using assms by (simp add: fun_eq_iff jobs_settled_def)
  have pool: "wp False (run_pool OS cfg env restic (sched ts) \<lparr>tot_backed_up = 0, tot_skipped = 0, tot_errors = 0, failed_repos = []\<rparr>)
      (\<lambda>tot t. grows view rely audit s t \<and> set (failed_repos tot) \<subseteq> fst ` set ts \<and>
        jobs_settled ts (failed_repos tot) (audit (outside t)))
      (\<lambda>_ t. grows view rely audit s t) (s'\<lparr>initialized := [], init_pending := []\<rparr>)"
    if "grows view rely audit s s'" for s' env restic
    using grows_trans [OF that]
    by (auto simp: same assms intro!: wp_mono [OF run_pool_grows])
  show ?thesis
    unfolding run_jobs_def
    by (auto simp: wp_bind wp_seq wp_lift_sum wp_modify
        intro!: wp_mono [OF env] pool split: sum.split)
qed

end

end
