(* ===== verification/BackupRun.thy ===== *)
theory BackupRun
  imports BackupJobs
begin

text \<open>
  The backup run as a whole: what it takes from Redis, and that it accounts for every path it
  took, on every exit. Other clients act on Redis at any time; the contract says that only the
  holder of the lock touches \<open>processing\<close>.
\<close>

subsection \<open>The contract\<close>

definition requeue_eff :: "redis_cmd list \<Rightarrow> audit \<Rightarrow> exn + unit \<Rightarrow> audit \<Rightarrow> bool" where
  "requeue_eff cmds a r a' \<longleftrightarrow> audit_le a a' \<and>
     (r = Inr () \<longrightarrow> {p. \<exists>v. Hset ''pending'' (JStr p) v \<in> set cmds} \<subseteq> requeued a')"

abbreviation later :: "audit \<Rightarrow> exn + 'a \<Rightarrow> audit \<Rightarrow> bool" where
  "later a r a' \<equiv> audit_le a a'"

locale backup_env = redis_backup view rely R fr todo rank + backup_os view rely OS audit
  for view :: "'w \<Rightarrow> redis_db" and rely and R and fr and todo :: "'w \<Rightarrow> string \<Rightarrow> int \<Rightarrow> string set"
    and rank :: "'w \<Rightarrow> string \<Rightarrow> int \<Rightarrow> nat" and OS and audit +
  assumes exclusive: "rely u v \<Longrightarrow> hashes v ''processing'' = hashes u ''processing''"
    and exists_audit: "atomic audit (=) later (rd_exists R key)"
    and rename_audit: "atomic audit (=) later (rd_rename R old new)"
    and hscan_audit: "atomic audit (=) later (rd_hscan R key c count)"
    and pipeline_audit: "atomic audit (=) (requeue_eff cmds) (rd_pipeline R cmds)"
    and delete_audit: "atomic audit (=) later (rd_delete R key)"
    and hset_map_audit: "atomic audit (=) later (rd_hset_map R key kvs)"

subsection \<open>What a run takes and what it settles\<close>

text \<open>
  The paths of a run: those left in \<open>processing\<close> by an interrupted one, or all of \<open>pending\<close>, at
  one moment after the run started.
\<close>

definition captured :: "(redis_db \<Rightarrow> redis_db \<Rightarrow> bool) \<Rightarrow> redis_db \<Rightarrow> string set \<Rightarrow> bool" where
  "captured rely u T \<longleftrightarrow> (\<exists>v. rely u v \<and>
     T = (if hashes v ''processing'' \<noteq> Map.empty then dom (hashes v ''processing'') else dom (hashes v ''pending'')))"

text \<open>Paths that no repository takes, under the configured base and depth.\<close>

definition unmapped :: "config \<Rightarrow> string set" where
  "unmapped cfg = {p. \<exists>base depth. cfg_item cfg ''backup'' ''base_path'' = Inr base \<and>
     cfg_item cfg ''backup'' ''repo_depth'' = Inr depth \<and> repo_id_of p base depth = Inr None}"

definition settled :: "config \<Rightarrow> audit \<Rightarrow> string set" where
  "settled cfg a = handled a \<union> requeued a \<union> unmapped cfg"

definition in_processing :: "redis_db \<Rightarrow> string set" where
  "in_processing db = dom (hashes db ''processing'')"

lemma settled_mono: "audit_le a b \<Longrightarrow> settled cfg a \<subseteq> settled cfg b"
  by (auto simp: settled_def handled_def audit_le_def)

lemma both_wp:
  assumes "atomic view rely eff m" and "atomic audit (=) aeff m"
    and "\<And>x w v. m (outside s) = Some (Inr x, w) \<Longrightarrow> rely (view (outside s)) v \<Longrightarrow> eff v (Inr x) (view w) \<Longrightarrow>
      aeff (audit (outside s)) (Inr x) (audit w) \<Longrightarrow> Q x (s\<lparr>outside := w\<rparr>)"
    and "\<And>e w v. rely (view (outside s)) v \<Longrightarrow> eff v (Inl e) (view w) \<Longrightarrow>
      aeff (audit (outside s)) (Inl e) (audit w) \<Longrightarrow> E e (s\<lparr>outside := w\<rparr>)"
  shows "wp d (on_outside m) Q E s"
proof -
  from assms(1) obtain r w v where m: "m (outside s) = Some (r, w)" and "rely (view (outside s)) v" "eff v r (view w)"
    unfolding atomic_def by blast
  moreover from assms(2) m have "aeff (audit (outside s)) r (audit w)"
    unfolding atomic_def by (metis Pair_inject option.inject)
  ultimately show ?thesis using assms(3,4) by (cases r) (auto simp: wp_def on_outside_def)
qed

lemma on_outside_bind: "on_outside (bind_py m f) = bind_py (on_outside m) (\<lambda>x. on_outside (f x))"
proof
  fix s :: "'a run_state"
  show "on_outside (bind_py m f) s = bind_py (on_outside m) (\<lambda>x. on_outside (f x)) s"
    by (cases "m (outside s)"; cases "fst (the (m (outside s)))") (auto simp: on_outside_def bind_py_def)
qed

context backup_env
begin

lemma exclusive_dom: "rely u v \<Longrightarrow> in_processing v = in_processing u"
  using exclusive [of u v] by (simp add: in_processing_def)

lemma grows_processing: "grows view rely audit s t \<Longrightarrow> in_processing (view (outside t)) = in_processing (view (outside s))"
  by (simp add: grows_def exclusive_dom)

text \<open>Taking the pending paths: all or nothing.\<close>

lemma take_pending_wp:
  "wp False (on_outside (take_pending R))
     (\<lambda>some t. \<exists>T. captured rely (view (outside s)) T \<and> in_processing (view (outside t)) = T \<and> (some \<or> T = {}))
     (\<lambda>e t. rely (view (outside s)) (view (outside t)) \<or>
        captured rely (view (outside s)) (in_processing (view (outside t)))) s"
proof -
  have moved: "captured rely (view (outside s)) (in_processing (db_rename ''pending'' ''processing'' v))"
    if "rely (view (outside s)) u" "hashes u ''processing'' = Map.empty" "rely u v" for u v
    using that rely_trans exclusive [of u v] by (auto simp: captured_def in_processing_def db_rename_def intro!: exI [of _ v])
  have none: "captured rely (view (outside s)) (in_processing v) \<and> in_processing v = {}"
    if "rely (view (outside s)) u" "hashes u ''processing'' = Map.empty" "rely u v" "hashes v ''pending'' = Map.empty" for u v
    using that rely_trans exclusive [of u v] by (auto simp: captured_def in_processing_def intro!: exI [of _ v])
  have left: "captured rely (view (outside s)) (in_processing v)"
    if "rely (view (outside s)) v" "hashes v ''processing'' \<noteq> Map.empty" for v
    using that by (auto simp: captured_def in_processing_def intro!: exI [of _ v])
  show ?thesis
    unfolding take_pending_def wp_on_outside wp_rules
    by (rule atomic_wp [OF exists];
        auto simp: read_eff_def rename_eff_def wp_rules split: if_splits
         intro: left intro!: atomic_wp [OF rename] dest: moved none; blast intro: rely_trans moved)
qed

end

text \<open>
  The scan: \<open>scan_inv\<close> says that the paths seen so far, with those the cursor still promises,
  are the paths in \<open>processing\<close>.
\<close>

definition seen :: "cfgval \<Rightarrow> cfgval \<Rightarrow> string list \<Rightarrow> scan \<Rightarrow> bool" where
  "seen base depth xs sc \<longleftrightarrow> grouped (repo_fun base depth) xs sc \<and>
     (\<forall>p \<in> set xs. repo_id_of p base depth = Inr (repo_fun base depth p))"

definition scan_inv :: "('w \<Rightarrow> redis_db) \<Rightarrow> ('w \<Rightarrow> string \<Rightarrow> int \<Rightarrow> string set) \<Rightarrow> string set \<Rightarrow> cfgval \<Rightarrow> cfgval \<Rightarrow>
    int \<times> scan \<Rightarrow> 'w run_state \<Rightarrow> bool" where
  "scan_inv view todo T base depth x t \<longleftrightarrow> in_processing (view (outside t)) = T \<and>
     (\<exists>xs. set xs \<subseteq> T \<and> T \<subseteq> set xs \<union> todo (outside t) ''processing'' (fst x) \<and> seen base depth xs (snd x))"

lemma scan_items_seen: "scan_items base depth items sc = Inr sc' \<Longrightarrow> seen base depth xs sc \<Longrightarrow>
    seen base depth (xs @ items) sc'"
  using scan_items_grouped [of base depth items sc sc' xs] by (auto simp: seen_def)

definition scanned :: "string set \<Rightarrow> cfgval \<Rightarrow> cfgval \<Rightarrow> scan \<Rightarrow> bool" where
  "scanned T base depth sc \<longleftrightarrow> (\<exists>xs. set xs = T \<and> seen base depth xs sc)"

context backup_env
begin

lemma scan_step_wp:
  assumes inv: "scan_inv view todo T base depth (c, sc) t"
  shows "wp False (scan_step R base depth (c, sc))
      (\<lambda>r t'. case r of
          Inl x \<Rightarrow> scan_inv view todo T base depth x t' \<and>
            rank (outside t') ''processing'' (fst x) < rank (outside t) ''processing'' c
        | Inr sc' \<Rightarrow> in_processing (view (outside t')) = T \<and> scanned T base depth sc')
      (\<lambda>e t'. in_processing (view (outside t')) = T) t"
proof -
  from inv obtain xs where T: "in_processing (view (outside t)) = T" and xs: "set xs \<subseteq> T"
    "T \<subseteq> set xs \<union> todo (outside t) ''processing'' c" "seen base depth xs sc"
    by (auto simp: scan_inv_def)
  have page: "in_processing (view w) = T \<and> set items \<subseteq> T \<and>
      todo (outside t) ''processing'' c \<subseteq> set items \<union> (if c' = 0 then {} else todo w ''processing'' c') \<and>
      (c' \<noteq> 0 \<longrightarrow> rank w ''processing'' c' < rank (outside t) ''processing'' c)"
    if "rd_hscan R ''processing'' c 10000 (outside t) = Some (Inr (c', items), w)" "rely (view (outside t)) v"
      "read_eff (\<lambda>v (c', items). set items \<subseteq> dom (hashes v ''processing'')) v (Inr (c', items)) (view w)"
    for c' items w v
    using that(3) exclusive_dom [OF that(2)] T hscan_next [OF that(1)] hscan_rank [OF that(1)]
    by (auto simp: read_eff_def in_processing_def)
  show ?thesis
    unfolding scan_step_def prod.case wp_bind
  proof (rule both_wp [OF hscan hscan_audit], clarify)
    fix c' items w v
    assume call: "rd_hscan R ''processing'' c 10000 (outside t) = Some (Inr (c', items), w)" "rely (view (outside t)) v"
      "read_eff (\<lambda>v (c', items). set items \<subseteq> dom (hashes v ''processing'')) v (Inr (c', items)) (view w)"
    note here = page [OF call]
    show "wp False (bind_py (lift_sum (scan_items base depth items sc))
          (\<lambda>sc. return_py (if c' = 0 then Inr sc else Inl (c', sc))))
        (\<lambda>r t'. case r of
          Inl x \<Rightarrow> scan_inv view todo T base depth x t' \<and>
            rank (outside t') ''processing'' (fst x) < rank (outside t) ''processing'' c
        | Inr sc' \<Rightarrow> in_processing (view (outside t')) = T \<and> scanned T base depth sc')
        (\<lambda>e t'. in_processing (view (outside t')) = T) (t\<lparr>outside := w\<rparr>)"
    proof (cases "scan_items base depth items sc")
      case (Inl e)
      with here show ?thesis by (simp add: wp_bind wp_lift_sum)
    next
      case (Inr sc')
      from scan_items_seen [OF Inr xs(3)] have "seen base depth (xs @ items) sc'" .
      moreover have "set (xs @ items) \<subseteq> T" using here xs by auto
      moreover have "T \<subseteq> set (xs @ items) \<union> (if c' = 0 then {} else todo w ''processing'' c')" using here xs by auto
      ultimately show ?thesis
        using here Inr
        by (auto simp: wp_bind wp_lift_sum wp_return scan_inv_def scanned_def simp del: set_append
            split: if_splits intro!: exI [of _ "xs @ items"])
    qed
  next
    fix e w v
    assume "rely (view (outside t)) v"
      "read_eff (\<lambda>v (c', items). set items \<subseteq> dom (hashes v ''processing'')) v (Inl e) (view w)"
    with T exclusive_dom show "in_processing (view (outside (t\<lparr>outside := w\<rparr>))) = T"
      by (simp add: read_eff_def)
  qed
qed

lemma scan_processing_wp:
  assumes T: "in_processing (view (outside s)) = T"
  shows "wp False (scan_processing R base depth)
     (\<lambda>sc t. in_processing (view (outside t)) = T \<and> scanned T base depth sc)
     (\<lambda>e t. in_processing (view (outside t)) = T) s"
  unfolding scan_processing_def
proof (rule wp_loop_total [where I = "scan_inv view todo T base depth"
      and \<mu> = "\<lambda>x t. rank (outside t) ''processing'' (fst x)"])
  show "wp False (scan_step R base depth x)
      (\<lambda>r t'. case r of
          Inl x' \<Rightarrow> scan_inv view todo T base depth x' t' \<and>
            rank (outside t') ''processing'' (fst x') < rank (outside t) ''processing'' (fst x)
        | Inr sc' \<Rightarrow> in_processing (view (outside t')) = T \<and> scanned T base depth sc')
      (\<lambda>e t'. in_processing (view (outside t')) = T) t"
    if "scan_inv view todo T base depth x t" for x t
    using scan_step_wp [of T base depth "fst x" "snd x" t] that by simp
  show "scan_inv view todo T base depth (0, \<lparr>scan_tasks = [], scan_skipped = 0, scan_total = 0\<rparr>) s"
    using T hscan_start [of "outside s" "''processing''"] grouped_Nil
    unfolding scan_inv_def by (intro conjI exI [of _ "[]"]) (simp_all add: seen_def in_processing_def)
qed

text \<open>Restoring the paths of failed repositories touches \<open>pending\<close> only.\<close>

lemma restore_encoded: "encode_cmds fr (restore_cmds ts failed) = Inr ds \<Longrightarrow> \<forall>d \<in> set ds. fst (cmd_field d) = ''pending''"
proof -
  have "encode_cmds fr cs = Inr ds \<Longrightarrow> \<forall>c \<in> set cs. \<exists>f v. c = Hset ''pending'' f v \<Longrightarrow>
      \<forall>d \<in> set ds. fst (cmd_field d) = ''pending''" for cs ds
    by (induction cs arbitrary: ds) (fastforce simp: bind_sum_Inr)+
  then show "encode_cmds fr (restore_cmds ts failed) = Inr ds \<Longrightarrow> \<forall>d \<in> set ds. fst (cmd_field d) = ''pending''"
    by (fastforce simp: restore_cmds_def)
qed

lemma run_other_key: "\<forall>d \<in> set ds. fst (cmd_field d) \<noteq> key \<Longrightarrow> hashes (db_run ds v) key = hashes v key"
proof (induction ds arbitrary: v)
  case (Cons d ds)
  have "hashes (exec_cmd d v) key = hashes v key"
    using Cons.prems by (auto simp: fun_eq_iff exec_cmd_lookup)
  with Cons show ?case by simp
qed simp

lemma restore_failed_wp:
  assumes T: "in_processing (view (outside s)) = T"
  shows "wp False (on_outside (restore_failed R ts failed))
     (\<lambda>_ t. in_processing (view (outside t)) = T \<and> audit_le (audit (outside s)) (audit (outside t)) \<and>
        (\<forall>rid \<in> set failed. set (the (map_of ts rid)) \<subseteq> requeued (audit (outside t))))
     (\<lambda>e t. in_processing (view (outside t)) = T) s"
proof (cases "failed = []")
  case True
  with T show ?thesis by (simp add: restore_failed_def wp_rules)
next
  case False
  have put: "{p. \<exists>v. Hset ''pending'' (JStr p) v \<in> set (restore_cmds ts failed)} = (\<Union>rid \<in> set failed. set (the (map_of ts rid)))"
    by (auto simp: restore_cmds_def)
  have kept: "in_processing (view w) = T"
    if "rely (view (outside s)) v" "pipeline_eff fr (restore_cmds ts failed) v r (view w)" for v r w
  proof -
    have "hashes (db_run ds v) ''processing'' = hashes v ''processing''"
      if "encode_cmds fr (restore_cmds ts failed) = Inr ds" for ds
      using restore_encoded [OF that] by (intro run_other_key) auto
    with that exclusive_dom [OF that(1)] T show ?thesis
      by (auto simp: pipeline_eff_def write_eff_def in_processing_def split: sum.splits)
  qed
  from False show ?thesis
    unfolding restore_failed_def
    by (simp, intro both_wp [OF pipeline pipeline_audit])
       (auto simp: requeue_eff_def put kept)
qed

lemma delete_record_wp:
  assumes "in_processing (view (outside s)) = T" and "T \<subseteq> settled cfg (audit (outside s))"
  shows "wp False (seq_py (on_outside (rd_delete R ''processing'')) (on_outside (record_run R OS start_time ts tot)))
     (\<lambda>_ t. T \<subseteq> settled cfg (audit (outside t)) \<and> in_processing (view (outside t)) = {})
     (\<lambda>e t. T \<subseteq> settled cfg (audit (outside t))) s"
proof -
  have deleted: "wp False (on_outside (rd_delete R ''processing''))
      (\<lambda>_ t. T \<subseteq> settled cfg (audit (outside t)) \<and> in_processing (view (outside t)) = {})
      (\<lambda>e t. T \<subseteq> settled cfg (audit (outside t))) s"
    by (rule both_wp [OF delete delete_audit])
       (use assms(2) settled_mono in \<open>fastforce simp: write_eff_def in_processing_def db_delete_def\<close>)+
  have clock: "wp False (on_outside (os_time OS))
      (\<lambda>_ t. T \<subseteq> settled cfg (audit (outside t)) \<and> in_processing (view (outside t)) = {})
      (\<lambda>e t. T \<subseteq> settled cfg (audit (outside t))) t"
    if "T \<subseteq> settled cfg (audit (outside t)) \<and> in_processing (view (outside t)) = {}" for t
    by (rule os_call_wp [OF time_call])
       (use that settled_mono exclusive_dom in \<open>fastforce+\<close>)
  have hset: "wp False (on_outside (rd_hset_map R ''backup:last_run'' kvs))
      (\<lambda>_ t. T \<subseteq> settled cfg (audit (outside t)) \<and> in_processing (view (outside t)) = {})
      (\<lambda>e t. T \<subseteq> settled cfg (audit (outside t))) t"
    if "T \<subseteq> settled cfg (audit (outside t)) \<and> in_processing (view (outside t)) = {}" for t kvs
  proof (rule both_wp [OF hset_map hset_map_audit])
    fix x w v
    assume "rely (view (outside t)) v" "audit_le (audit (outside t)) (audit w)"
      "write_eff (db_run (map (\<lambda>(f, x). Put ''backup:last_run'' f x) kvs)) v (Inr x) (view w)"
    moreover have "hashes (db_run (map (\<lambda>(f, x). Put ''backup:last_run'' f x) kvs) v) ''processing'' = hashes v ''processing''" for v
      by (rule run_other_key) auto
    ultimately show "T \<subseteq> settled cfg (audit (outside (t\<lparr>outside := w\<rparr>))) \<and> in_processing (view (outside (t\<lparr>outside := w\<rparr>))) = {}"
      using that settled_mono exclusive_dom [of "view (outside t)" v] by (fastforce simp: write_eff_def in_processing_def)
  qed (use that settled_mono in fastforce)
  have rec: "on_outside (record_run R OS start_time ts tot) = bind_py (on_outside (os_time OS)) (\<lambda>t.
      bind_py (on_outside (os_time OS)) (\<lambda>now. on_outside (rd_hset_map R ''backup:last_run''
       [(''timestamp'', show_int (trunc now)), (''backed_up'', show_int (tot_backed_up tot)),
        (''skipped'', show_int (tot_skipped tot)), (''errors'', show_int (tot_errors tot)),
        (''repos'', show_int (int (length ts))), (''duration'', fmt_1f (t - start_time))])))"
    unfolding record_run_def Let_def by (simp add: on_outside_bind)
  show ?thesis
    unfolding rec by (rule wp_seqI [OF deleted], rule wp_bindI [OF clock], assumption, rule wp_bindI [OF clock], assumption, rule hset)
qed

end

text \<open>Every path of a scan is settled once its job succeeded or it was put back.\<close>

lemma scanned_settled:
  assumes "scanned T base depth sc" and base: "cfg_item cfg ''backup'' ''base_path'' = Inr base"
    and depth: "cfg_item cfg ''backup'' ''repo_depth'' = Inr depth"
    and jobs: "jobs_settled (scan_tasks sc) failed a"
    and again: "\<forall>rid \<in> set failed. set (the (map_of (scan_tasks sc) rid)) \<subseteq> requeued a"
  shows "T \<subseteq> settled cfg a"
proof
  fix p
  assume "p \<in> T"
  with assms(1) obtain xs where p: "p \<in> set xs" and seen: "seen base depth xs sc" by (auto simp: scanned_def)
  show "p \<in> settled cfg a"
  proof (cases "repo_fun base depth p")
    case None
    with p seen base depth show ?thesis by (auto simp: seen_def settled_def unmapped_def)
  next
    case (Some rid)
    with seen p obtain ps where ps: "(rid, ps) \<in> set (scan_tasks sc)" "p \<in> set ps"
      by (auto simp: seen_def dest: grouped_paths)
    then have "map_of (scan_tasks sc) rid = Some ps"
      using seen by (intro map_of_is_SomeI) (simp_all add: seen_def grouped_def)
    with ps jobs again show ?thesis by (fastforce simp: jobs_settled_def settled_def)
  qed
qed

context backup_env
begin

text \<open>The whole run, on every exit.\<close>

lemma run_inner_wp:
  assumes sched: "\<And>ts. set (sched ts) = set ts"
  shows "wp False (run_backup_inner R OS sched cfg start_time)
     (\<lambda>_ t. \<exists>T. captured rely (view (outside s)) T \<and> T \<subseteq> settled cfg (audit (outside t)) \<and>
        in_processing (view (outside t)) = {})
     (\<lambda>e t. rely (view (outside s)) (view (outside t)) \<or>
        (\<exists>T. captured rely (view (outside s)) T \<and>
          (in_processing (view (outside t)) = T \<or> T \<subseteq> settled cfg (audit (outside t))))) s"
    (is "wp False _ ?ok ?bad s")
proof -
  have jobs: "wp False (run_jobs OS cfg sched ts)
      (\<lambda>tot u. in_processing (view (outside u)) = T \<and> jobs_settled ts (failed_repos tot) (audit (outside u)))
      (\<lambda>_ u. in_processing (view (outside u)) = T) t"
    if "in_processing (view (outside t)) = T" for t ts T
    by (rule wp_mono [OF run_jobs_grows [OF sched]]) (use that grows_processing in auto)
  have rest: "wp False (bind_py (scan_processing R base depth) (\<lambda>sc.
      bind_py (run_jobs OS cfg sched (scan_tasks sc)) (\<lambda>tot.
      seq_py (on_outside (restore_failed R (scan_tasks sc) (failed_repos tot)))
      (seq_py (on_outside (rd_delete R ''processing'')) (on_outside (record_run R OS start_time (scan_tasks sc) tot))))))
      ?ok ?bad t"
    if cap: "captured rely (view (outside s)) T" and T: "in_processing (view (outside t)) = T"
      and base: "cfg_item cfg ''backup'' ''base_path'' = Inr base" and depth: "cfg_item cfg ''backup'' ''repo_depth'' = Inr depth"
    for T t base depth
  proof -
    have moved: "jobs_settled ts failed b" if "jobs_settled ts failed a" "audit_le a b" for ts failed a b
      using that by (fastforce simp: jobs_settled_def handled_def audit_le_def)
    show ?thesis
      unfolding wp_bind wp_seq [of _ "on_outside (restore_failed R ts failed)" for ts failed]
      by (rule wp_mono [OF scan_processing_wp [OF T]], rule wp_mono [OF jobs], erule conjunct1,
          rule wp_mono [OF restore_failed_wp], erule conjunct1, rule wp_mono [OF delete_record_wp], erule conjunct1)
         (use cap base depth in \<open>auto intro: subsetD [OF scanned_settled] moved\<close>)
  qed
  show ?thesis
    unfolding run_backup_inner_def wp_bind [of _ "on_outside (take_pending R)"]
  proof (rule wp_mono [OF take_pending_wp])
    fix some and t :: "'w run_state"
    assume "\<exists>T. captured rely (view (outside s)) T \<and> in_processing (view (outside t)) = T \<and> (some \<or> T = {})"
    then obtain T where T: "captured rely (view (outside s)) T" "in_processing (view (outside t)) = T" "some \<or> T = {}" by blast
    then have "?bad e t" for e by blast
    with T rest show "wp False (if \<not> some then return_py () else
        bind_py (lift_sum (cfg_item cfg ''backup'' ''base_path'')) (\<lambda>base.
        bind_py (lift_sum (cfg_item cfg ''backup'' ''repo_depth'')) (\<lambda>depth.
        bind_py (scan_processing R base depth) (\<lambda>sc.
        bind_py (run_jobs OS cfg sched (scan_tasks sc)) (\<lambda>tot.
        seq_py (on_outside (restore_failed R (scan_tasks sc) (failed_repos tot)))
        (seq_py (on_outside (rd_delete R ''processing''))
          (on_outside (record_run R OS start_time (scan_tasks sc) tot)))))))) ?ok ?bad t"
      by (cases "cfg_item cfg ''backup'' ''base_path''"; cases "cfg_item cfg ''backup'' ''repo_depth''")
         (auto simp: wp_return wp_bind [of _ "lift_sum r" for r] wp_lift_sum)
  qed auto
qed

end

end
