(* ===== verification/BackupSite.thy ===== *)
theory BackupSite
  imports BackupRun
begin

text \<open>
  A scripted site for the backup run (an in-memory Redis with scripted faults, a file system,
  a restic whose exit codes are a script), the proof that it meets the contract, and the
  properties of the run.
\<close>

subsection \<open>The scripted site\<close>

text \<open>\<open>st_rcs\<close> are the exit codes of the next restic calls (0 when exhausted).\<close>

record site = mem +
  st_present :: "string list"
  st_rcs :: "int list"
  st_audit :: audit
  st_clock :: int

definition site_run :: "cfgval \<Rightarrow> string list \<Rightarrow> environ \<Rightarrow> int option \<Rightarrow> (site, int \<times> string \<times> string) py" where
  "site_run restic args env timeout = (\<lambda>w.
     let rc = (case st_rcs w of [] \<Rightarrow> 0 | rc # _ \<Rightarrow> rc);
         a = st_audit w;
         lines = (if length args = 7 \<and> hd args = ''backup'' \<and> rc \<in> {0, 3}
                  then (case files a (args ! 2) of None \<Rightarrow> [] | Some text \<Rightarrow> split_on (CHR 0x0A) text) else [])
     in Some (Inr (rc, [], []),
          w\<lparr>st_rcs := tl (st_rcs w), st_audit := a\<lparr>saved := saved a \<union> set lines\<rparr>\<rparr>))"

definition site_os :: "site os" where
  "site_os = \<lparr>
     os_run = site_run,
     os_exists = (\<lambda>p w. Some (Inr (p \<in> set (st_present w)),
        if p \<in> set (st_present w) then w
        else w\<lparr>st_audit := (st_audit w)\<lparr>gone := insert p (gone (st_audit w))\<rparr>\<rparr>)),
     os_mktemp = return_py ''/tmp/list.txt'',
     os_write = (\<lambda>name text. modify_py (\<lambda>w. w\<lparr>st_audit := (st_audit w)\<lparr>files := (files (st_audit w))(name \<mapsto> text)\<rparr>\<rparr>)),
     os_unlink = (\<lambda>name. modify_py (\<lambda>w. w\<lparr>st_audit := (st_audit w)\<lparr>files := (files (st_audit w))(name := None)\<rparr>\<rparr>)),
     os_sleep = (\<lambda>secs. modify_py (\<lambda>w. w\<lparr>st_clock := st_clock w + secs\<rparr>)),
     os_time = get_py (\<lambda>w. of_int (st_clock w)),
     os_hostname = return_py ''node1'',
     os_environ = return_py Map.empty\<rparr>"

definition hset_paths :: "redis_cmd list \<Rightarrow> string list" where
  "hset_paths cmds = concat (map (\<lambda>c. case c of Hset k (JStr p) v \<Rightarrow> if k = ''pending'' then [p] else [] | _ \<Rightarrow> []) cmds)"

definition site_redis :: "(string \<Rightarrow> string) \<Rightarrow> site redis_client" where
  "site_redis fr = (mem_redis fr)\<lparr>rd_pipeline := (\<lambda>cmds w.
     map_option (\<lambda>(r, w'). (r, if r = Inr ()
         then w'\<lparr>st_audit := (st_audit w')\<lparr>requeued := requeued (st_audit w') \<union> set (hset_paths cmds)\<rparr>\<rparr> else w'))
       (rd_pipeline (mem_redis fr) cmds w))\<rparr>"

subsection \<open>It meets the contract\<close>

lemma set_hset_paths: "set (hset_paths cmds) = {p. \<exists>v. Hset ''pending'' (JStr p) v \<in> set cmds}"
  unfolding hset_paths_def by (induction cmds) (auto split: redis_cmd.split json.split)

lemma mem_view_site [simp]:
  "mem_view (w\<lparr>st_audit := a\<rparr>) = mem_view w" "mem_view (w\<lparr>st_rcs := rs\<rparr>) = mem_view w"
  "mem_view (w\<lparr>st_clock := t\<rparr>) = mem_view w"
  by (simp_all add: mem_view_def)

lemma st_audit_cmd [simp]: "st_audit (mem_cmd w c) = st_audit w"
  by (cases c) (simp_all add: mem_set_hash_def)

lemma st_audit_cmds [simp]: "st_audit (foldl mem_cmd w cs) = st_audit w"
  by (induction cs arbitrary: w) simp_all

lemma mem_call_audit:
  assumes "\<And>w :: site. st_audit (snd (f w)) = st_audit w"
  shows "atomic st_audit (=) later (mem_call f)"
  unfolding atomic_def
proof
  fix w :: site
  have same: "st_audit (w\<lparr>m_faults := bs\<rparr>) = st_audit w" for bs by simp
  show "\<exists>r w' v. mem_call f w = Some (r, w') \<and> st_audit w = v \<and> audit_le v (st_audit w')"
    using assms [of w] assms [of "w\<lparr>m_faults := tl (m_faults w)\<rparr>"]
    by (cases "f w"; cases "m_faults w"; cases "f (w\<lparr>m_faults := tl (m_faults w)\<rparr>)")
      (auto simp: mem_call_def same)
qed

lemma site_pipeline_audit: "atomic st_audit (=) (requeue_eff cmds) (rd_pipeline (site_redis fr) cmds)"
  by (cases "encode_cmds fr cmds")
    (auto simp: atomic_def site_redis_def mem_redis_def mem_call_def requeue_eff_def set_hset_paths
      audit_le_def split: list.split)

lemma site_pipeline: "atomic mem_view (=) (pipeline_eff fr cmds) (rd_pipeline (site_redis fr) cmds)"
  unfolding atomic_def
proof
  fix w :: site
  obtain r w' where "rd_pipeline (mem_redis fr) cmds w = Some (r, w')" "pipeline_eff fr cmds (mem_view w) r (mem_view w')"
    using mem_pipeline [of fr cmds, unfolded atomic_def, THEN spec, of w] by blast
  then show "\<exists>r w' v. rd_pipeline (site_redis fr) cmds w = Some (r, w') \<and> mem_view w = v \<and> pipeline_eff fr cmds v r (mem_view w')"
    by (auto simp: site_redis_def)
qed

lemma site_same [simp]:
  "rd_ping (site_redis fr) = rd_ping (mem_redis fr)" "rd_hlen (site_redis fr) = rd_hlen (mem_redis fr)"
  "rd_set_nx_ex (site_redis fr) = rd_set_nx_ex (mem_redis fr)" "rd_get (site_redis fr) = rd_get (mem_redis fr)"
  "rd_delete (site_redis fr) = rd_delete (mem_redis fr)" "rd_exists (site_redis fr) = rd_exists (mem_redis fr)"
  "rd_rename (site_redis fr) = rd_rename (mem_redis fr)" "rd_hset_map (site_redis fr) = rd_hset_map (mem_redis fr)"
  "rd_hscan (site_redis fr) = rd_hscan (mem_redis fr)"
  by (simp_all add: site_redis_def)

lemma atomic_intro: "(\<And>w. m w = Some (r w, f w)) \<Longrightarrow> (\<And>w. eff (view w) (r w) (view (f w))) \<Longrightarrow> atomic view (=) eff m"
  unfolding atomic_def by metis

lemma site_run_call: "os_call mem_view (=) st_audit (run_eff args) (site_run restic args env timeout)"
proof -
  define rc where "rc w = (case st_rcs w of [] \<Rightarrow> 0 | rc # _ \<Rightarrow> rc)" for w :: site
  define lines where "lines w = (if length args = 7 \<and> hd args = ''backup'' \<and> rc w \<in> {0, 3}
     then (case files (st_audit w) (args ! 2) of None \<Rightarrow> [] | Some text \<Rightarrow> split_on (CHR 0x0A) text) else [])" for w
  define w' where "w' w = w\<lparr>st_rcs := tl (st_rcs w), st_audit := (st_audit w)\<lparr>saved := saved (st_audit w) \<union> set (lines w)\<rparr>\<rparr>" for w
  have run: "site_run restic args env timeout w = Some (Inr (rc w, [], []), w' w)" for w
    unfolding site_run_def Let_def rc_def lines_def w'_def ..
  have "mem_view (w' w) = mem_view w" for w
    by (simp add: w'_def)
  moreover have "run_eff args (st_audit w) (Inr (rc w, [], [])) (st_audit (w' w))" for w
    unfolding run_eff_def
  proof (intro conjI allI impI; (elim conjE)?)
    fix code out err f url body
    assume "Inr (rc w, [], []) = (Inr (code, out, err) :: exn + int \<times> string \<times> string)" "code \<in> {0, 3}"
      "args = backup_args f url" "files (st_audit w) f = Some body"
    then show "set (split_on (CHR 0x0A) body) \<subseteq> saved (st_audit (w' w))"
      by (simp add: w'_def lines_def backup_args_def)
  qed (simp_all add: w'_def audit_le_def)
  ultimately show ?thesis
    unfolding os_call_def by (intro conjI atomic_intro [OF run]) simp_all
qed

interpretation site: backup_os mem_view "(=)" site_os st_audit
proof unfold_locales
  fix args restic env timeout p name secs
  show "os_call mem_view (=) st_audit (run_eff args) (os_run site_os restic args env timeout)"
    by (simp add: site_os_def site_run_call)
  show "os_call mem_view (=) st_audit (exists_eff p) (os_exists site_os p)"
    by (auto simp: site_os_def os_call_def atomic_def exists_eff_def audit_le_def)
  show "os_call mem_view (=) st_audit (file_eff name body) (os_write site_os name body)" for body
    by (auto simp: site_os_def os_call_def atomic_def file_eff_def audit_le_def modify_py_def)
qed (auto simp: site_os_def os_call_def atomic_def audit_le_def py_defs)

lemma site_redis_backup: "redis_backup mem_view (=) (site_redis fr) fr mem_todo (mem_rank :: site \<Rightarrow> _)"
proof (unfold_locales, unfold site_same)
  show "atomic mem_view (=) (pipeline_eff fr cmds) (rd_pipeline (site_redis fr) cmds)" for cmds
    by (rule site_pipeline)
qed (rule mem.ping mem.hlen mem.set_nx_ex mem.get mem.delete mem.exists mem.rename mem.hset_map mem.hscan
    mem.hscan_start | erule mem.hscan_next mem.hscan_rank; assumption?)+

interpretation site: backup_env mem_view "(=)" "site_redis fr" fr mem_todo mem_rank site_os st_audit
proof (intro backup_env.intro site_redis_backup site.backup_os_axioms, unfold_locales, unfold site_same)
  show "atomic st_audit (=) (requeue_eff cmds) (rd_pipeline (site_redis fr) cmds)" for cmds
    by (rule site_pipeline_audit)
qed (auto simp: mem_redis_def mem_set_hash_def intro!: mem_call_audit)

subsection \<open>Example data\<close>

definition ex_cfg :: config where
  "ex_cfg = [
     ''db'' \<mapsto> [''redis_url'' \<mapsto> CStr ''redis://r''],
     ''minio'' \<mapsto> [''endpoint'' \<mapsto> CStr ''m:9000'', ''bucket'' \<mapsto> CStr ''b''],
     ''backup'' \<mapsto> [''base_path'' \<mapsto> CStr ''/home'', ''repo_depth'' \<mapsto> CInt 2]]"

text \<open>
  Four pending paths in two repositories and one outside; \<open>rcs\<close> are the exit codes of restic.
\<close>

definition ex_site :: "int list \<Rightarrow> bool list \<Rightarrow> site" where
  "ex_site rcs faults = \<lparr>m_hash = (\<lambda>k. if k = ''pending'' then
       [(''/home/s1/u/a'', ''mtime_change''), (''/home/s1/u/b'', ''rename''),
        (''/home/s2/v/c'', ''mtime_change''), (''/home/x'', ''mtime_change'')] else []),
     m_str = (\<lambda>_. None), m_time = 0, m_faults = faults,
     st_present = [''/home/s1/u/a'', ''/home/s2/v/c''], st_rcs = rcs,
     st_audit = \<lparr>files = Map.empty, saved = {}, gone = {}, requeued = {}\<rparr>, st_clock = 100\<rparr>"

definition ex_run_state :: "site \<Rightarrow> site run_state" where
  "ex_run_state w = \<lparr>outside = w, initialized = [], init_pending = []\<rparr>"

text \<open>The second repository fails three times.\<close>

definition ex_backup :: "site run_state" where
  "ex_backup = ex_run_state (ex_site [0, 0, 0, 1, 1, 1] [])"

subsection \<open>Properties\<close>



text \<open>
  The counts of a job add up: of the paths given, each is backed up, skipped or an error,
  and a job never reports both backed-up files and errors.
\<close>

theorem backup_repo_counts:
  assumes "backup_repo OS cfg env restic rid paths s = Some (Inr res, s')"
  shows "res_total res = int (length paths) \<and>
    res_backed_up res + res_skipped res + res_errors res = res_total res \<and>
    0 \<le> res_backed_up res \<and> 0 \<le> res_skipped res \<and> 0 \<le> res_errors res \<and>
    (res_backed_up res = 0 \<or> res_errors res = 0)"
  using wp_returnD [OF backup_repo_accounts assms] by (simp add: accounts_def)

theorem backup_repo_counts_witness:
  "\<exists>res s'. backup_repo site_os ex_cfg Map.empty (CStr ''restic'') ''s1/u'' [''/home/s1/u/a'', ''/home/s1/u/b'']
     (ex_run_state (ex_site [0, 1, 3] [])) = Some (Inr res, s') \<and> res_backed_up res = 1 \<and> res_skipped res + res_errors res = 1"
proof -
  let ?run = "backup_repo site_os ex_cfg Map.empty (CStr ''restic'') ''s1/u'' [''/home/s1/u/a'', ''/home/s1/u/b'']
     (ex_run_state (ex_site [0, 1, 3] []))"
  let ?res = "\<lparr>res_total = 2, res_backed_up = 1, res_skipped = 1, res_errors = 0\<rparr>"
  have run: "map_option fst ?run = Some (Inr ?res)"
    by code_simp
  from backup_repo_counts [OF run_outcome [OF run]] run_outcome [OF run] show ?thesis
    by (intro exI [of _ ?res] exI [of _ "snd (the ?run)"]) auto
qed

text \<open>
  The totals of the pool are exact: over all jobs, whatever restic does and in whatever
  order they complete, backed-up, skipped and failed paths add up to the paths submitted.
\<close>

theorem run_pool_totals:
  assumes "run_pool OS cfg env restic jobs \<lparr>tot_backed_up = 0, tot_skipped = 0, tot_errors = 0, failed_repos = []\<rparr> s =
      Some (Inr tot, s')"
  shows "tot_backed_up tot + tot_skipped tot + tot_errors tot = int (length (concat (map snd jobs)))"
  using wp_returnD [OF run_pool_accounts assms] by simp

theorem run_pool_totals_witness:
  "\<exists>tot s'. run_pool site_os ex_cfg Map.empty (CStr ''restic'') [(''s1/u'', [''/home/s1/u/a'']), (''s2/v'', [''/home/s2/v/c''])]
     \<lparr>tot_backed_up = 0, tot_skipped = 0, tot_errors = 0, failed_repos = []\<rparr> (ex_run_state (ex_site [0, 0, 1, 1] [])) =
     Some (Inr tot, s') \<and> tot_backed_up tot + tot_skipped tot + tot_errors tot = 2"
proof -
  let ?jobs = "[(''s1/u'', [''/home/s1/u/a'']), (''s2/v'', [''/home/s2/v/c''])]"
  let ?run = "run_pool site_os ex_cfg Map.empty (CStr ''restic'') ?jobs
     \<lparr>tot_backed_up = 0, tot_skipped = 0, tot_errors = 0, failed_repos = []\<rparr> (ex_run_state (ex_site [0, 0, 1, 1] []))"
  have run: "map_option fst ?run = Some (Inr \<lparr>tot_backed_up = 1, tot_skipped = 0, tot_errors = 1, failed_repos = [''s2/v'']\<rparr>)"
    by code_simp
  from run_pool_totals [OF run_outcome [OF run]] run_outcome [OF run] show ?thesis
    by (intro exI [of _ "\<lparr>tot_backed_up = 1, tot_skipped = 0, tot_errors = 1, failed_repos = [''s2/v'']\<rparr>"]
        exI [of _ "snd (the ?run)"]) (simp del: run_pool.simps)
qed

text \<open>
  C17: a scan of \<open>processing\<close> ends, and groups exactly the paths that are there: one job per
  repository, each path in the job of its own repository and in no other, in the order they
  were returned, with the paths that map to no repository counted as skipped.
\<close>

theorem scan_groups_paths:
  assumes env: "backup_env view rely R fr todo rank OS audit"
  shows "\<exists>r s'. scan_processing R base depth s = Some (r, s') \<and>
    in_processing (view (outside s')) = in_processing (view (outside s)) \<and>
    (case r of
       Inr sc \<Rightarrow> \<exists>xs. set xs = in_processing (view (outside s)) \<and> grouped (repo_fun base depth) xs sc
     | Inl e \<Rightarrow> True)"
proof -
  have "\<exists>r s'. scan_processing R base depth s = Some (r, s') \<and> (case r of
      Inr sc \<Rightarrow> in_processing (view (outside s')) = in_processing (view (outside s)) \<and>
        scanned (in_processing (view (outside s))) base depth sc
    | Inl e \<Rightarrow> in_processing (view (outside s')) = in_processing (view (outside s)))"
    by (rule wp_total_outcome [OF backup_env.scan_processing_wp [OF env refl]])
  then show ?thesis by (fastforce simp: scanned_def seen_def split: sum.splits)
qed

text \<open>A run left \<open>processing\<close> behind.\<close>

definition ex_left :: "site run_state" where
  "ex_left = ex_run_state ((ex_site [] [])\<lparr>m_hash := (\<lambda>_. [(''/home/s1/u/a'', ''retry''), (''/home/x'', ''retry'')])\<rparr>)"

definition ex_scan :: scan where
  "ex_scan = \<lparr>scan_tasks = [(''s1/u'', [''/home/s1/u/a''])], scan_skipped = 1, scan_total = 2\<rparr>"

theorem scan_groups_paths_witness:
  "\<exists>s'. scan_processing (site_redis id) (CStr ''/home'') (CInt 2) ex_left = Some (Inr ex_scan, s') \<and>
     (\<exists>xs. set xs = {''/home/s1/u/a'', ''/home/x''} \<and> grouped (repo_fun (CStr ''/home'') (CInt 2)) xs ex_scan)"
proof -
  have run: "map_option fst (scan_processing (site_redis id) (CStr ''/home'') (CInt 2) ex_left) = Some (Inr ex_scan)"
    by code_simp
  have all: "in_processing (mem_view (outside ex_left)) = {''/home/s1/u/a'', ''/home/x''}"
    by (auto simp: in_processing_def ex_left_def ex_run_state_def dom_def split: if_splits)
  obtain r s' where out: "scan_processing (site_redis id) (CStr ''/home'') (CInt 2) ex_left = Some (r, s')"
    and post: "case r of
       Inr sc \<Rightarrow> \<exists>xs. set xs = in_processing (mem_view (outside ex_left)) \<and> grouped (repo_fun (CStr ''/home'') (CInt 2)) xs sc
     | Inl e \<Rightarrow> True"
    using scan_groups_paths [OF site.backup_env_axioms, of id "CStr ''/home''" "CInt 2" ex_left] by blast
  from run out have r: "r = Inr ex_scan" by simp
  from post [unfolded r sum.case all] out [unfolded r] show ?thesis by blast
qed

text \<open>
  C18: no two jobs of a run work on the same restic repository, so the concurrent jobs never
  meet in \<open>RepoManager\<close> on one URL.
\<close>

theorem jobs_have_distinct_urls:
  assumes "scan_items base depth items \<lparr>scan_tasks = [], scan_skipped = 0, scan_total = 0\<rparr> = Inr sc"
    and "(rid1, ps1) \<in> set (scan_tasks sc)" and "(rid2, ps2) \<in> set (scan_tasks sc)"
    and "repo_url cfg rid1 = Inr url" and "repo_url cfg rid2 = Inr url"
  shows "rid1 = rid2 \<and> ps1 = ps2"
proof -
  have "distinct (map fst (scan_tasks sc))"
    using scan_items_grouped [OF assms(1) grouped_Nil] by (simp add: grouped_def)
  with assms(2,3) repo_url_inj [OF assms(4,5)] show ?thesis by (auto simp: eq_key_imp_eq_value)
qed

theorem jobs_have_distinct_urls_witness:
  "scan_items (CStr ''/home'') (CInt 2) [''/home/s1/u/a'', ''/home/s1/u/b''] \<lparr>scan_tasks = [], scan_skipped = 0, scan_total = 0\<rparr> =
     Inr \<lparr>scan_tasks = [(''s1/u'', [''/home/s1/u/a'', ''/home/s1/u/b''])], scan_skipped = 0, scan_total = 2\<rparr> \<and>
   repo_url ex_cfg ''s1/u'' = Inr ''s3:http://m:9000/b/s1/u'' \<and> ''s1/u'' = ''s1/u''"
proof -
  have scan: "scan_items (CStr ''/home'') (CInt 2) [''/home/s1/u/a'', ''/home/s1/u/b'']
      \<lparr>scan_tasks = [], scan_skipped = 0, scan_total = 0\<rparr> =
     Inr \<lparr>scan_tasks = [(''s1/u'', [''/home/s1/u/a'', ''/home/s1/u/b''])], scan_skipped = 0, scan_total = 2\<rparr>"
    by code_simp
  have url: "repo_url ex_cfg ''s1/u'' = Inr ''s3:http://m:9000/b/s1/u''" by code_simp
  from jobs_have_distinct_urls [OF scan _ _ url url] scan url show ?thesis by simp
qed

end
