(* ===== verification/BackupLock.thy ===== *)
theory BackupLock
  imports BackupSite
begin

text \<open>
  The distributed lock of \<open>backup.py\<close> and \<open>prune.py\<close>: what \<open>acquire_lock\<close>, \<open>release_lock\<close> and
  \<open>run_backup\<close> do to it, and a cluster of processes that use it, as a step relation. Mutual
  exclusion holds as long as every process leaves its critical section before its lock
  expires, and fails without that.
\<close>

subsection \<open>The calls\<close>

text \<open>
  \<open>tried_lock rely v0 ok v1\<close>: between the states \<open>v0\<close> and \<open>v1\<close> one \<open>SET NX EX\<close> on the lock was
  carried out, with the answer \<open>ok\<close>.
\<close>

definition tried_lock :: "(redis_db \<Rightarrow> redis_db \<Rightarrow> bool) \<Rightarrow> redis_db \<Rightarrow> bool \<Rightarrow> redis_db \<Rightarrow> bool" where
  "tried_lock rely v0 ok v1 \<longleftrightarrow> (\<exists>u u' node. rely v0 u \<and> db_set_nx_ex LOCK_KEY node LOCK_TTL u = (ok, u') \<and> rely u' v1)"

lemma db_set_nx_ex_False: "db_set_nx_ex key val ttl u = (False, u') \<longleftrightarrow> db_live u key \<noteq> None \<and> u' = u"
  by (auto simp: db_set_nx_ex_def)

context backup_env
begin

lemma acquire_lock_wp:
  "wp False (on_outside (acquire_lock R OS))
     (\<lambda>ok t. tried_lock rely (view (outside s)) ok (view (outside t)))
     (\<lambda>e t. rely (view (outside s)) (view (outside t)) \<or> is_RedisError e) s"
proof -
  have host: "wp False (os_hostname OS) (\<lambda>_ w. rely (view (outside s)) (view w))
      (\<lambda>_ w. rely (view (outside s)) (view w)) (outside s)"
    using hostname_call unfolding os_call_def by (auto intro: atomic_wp)
  have tried: "tried_lock rely (view (outside s)) ok v1"
    if "rely (view (outside s)) v" "rely v u" "(ok, u') = db_set_nx_ex LOCK_KEY node LOCK_TTL u" "rely u' v1" for v u ok u' v1 node
    unfolding tried_lock_def using that rely_trans [OF that(1,2)] by metis
  show ?thesis
    unfolding acquire_lock_def wp_on_outside wp_bind
    by (rule wp_mono [OF host], rule atomic_wp [OF set_nx_ex])
       (auto simp: set_nx_eff_def wp_rules read_eff_def intro!: atomic_wp [OF get] intro: tried rely_refl)
qed

text \<open>A run that does not get the lock does nothing; one that gets it gives it back.\<close>

lemma run_backup_wp:
  "wp False (run_backup R OS sched cfg)
     (\<lambda>_ t. strings (view (outside t)) LOCK_KEY = None \<or> tried_lock rely (view (outside s)) False (view (outside t)))
     (\<lambda>e t. strings (view (outside t)) LOCK_KEY = None \<or> rely (view (outside s)) (view (outside t)) \<or> is_RedisError e) s"
  if sched: "\<And>ts. set (sched ts) = set ts"
proof -
  have release: "wp False (on_outside (release_lock R)) (\<lambda>_ t. strings (view (outside t)) LOCK_KEY = None)
      (\<lambda>e t. is_RedisError e) t" for t
    unfolding release_lock_def wp_on_outside
    by (rule atomic_wp [OF delete]) (auto simp: write_eff_def db_delete_def)
  have inner: "wp False (run_backup_inner R OS sched cfg st) (\<lambda>_ _. True) (\<lambda>_ _. True) t" for st t
    by (rule wp_mono [OF run_inner_wp [OF sched]]) auto
  have clock: "wp False (on_outside (os_time OS)) (\<lambda>_ _. True) (\<lambda>_ _. False) t" for t
    by (rule os_call_wp [OF time_call]) auto
  have body: "wp False (bind_py (on_outside (os_time OS)) (\<lambda>start_time.
      try_finally (run_backup_inner R OS sched cfg start_time) (on_outside (release_lock R))))
     (\<lambda>_ t. strings (view (outside t)) LOCK_KEY = None)
     (\<lambda>e t. strings (view (outside t)) LOCK_KEY = None \<or> is_RedisError e) t" for t
    unfolding wp_bind wp_try_finally
    by (rule wp_mono [OF clock], rule wp_mono [OF inner]) (auto intro!: wp_mono [OF release])
  show ?thesis
    unfolding run_backup_def wp_bind [of _ "on_outside (acquire_lock R OS)"]
    by (rule wp_mono [OF acquire_lock_wp]) (auto simp: wp_return intro!: wp_mono [OF body])
qed

text \<open>While the lock is held elsewhere, a run leaves Redis to the others.\<close>

lemma run_backup_held:
  assumes held: "\<And>v. rely (view (outside s)) v \<Longrightarrow> db_live v LOCK_KEY \<noteq> None"
  shows "wp False (run_backup R OS sched cfg) (\<lambda>_ t. rely (view (outside s)) (view (outside t)))
     (\<lambda>e t. rely (view (outside s)) (view (outside t)) \<or> is_RedisError e) s"
proof -
  have no: "\<not> tried_lock rely (view (outside s)) True v" for v
    using held by (fastforce simp: tried_lock_def db_set_nx_ex_def split: if_splits)
  have others: "rely (view (outside s)) v" if "tried_lock rely (view (outside s)) False v" for v
    using that by (auto simp: tried_lock_def db_set_nx_ex_False intro: rely_trans)
  show ?thesis
    unfolding run_backup_def wp_bind [of _ "on_outside (acquire_lock R OS)"]
    by (rule wp_mono [OF acquire_lock_wp]) (use no others in \<open>auto simp: wp_return\<close>)
qed

end

subsection \<open>A cluster of processes\<close>

text \<open>
  Processes hold the lock in their critical section: \<open>holders\<close> gives the time each entered.
  With \<open>timely\<close>, time does not pass beyond the expiry of the lock of a process that is inside.
\<close>

record cluster =
  lock_db :: redis_db
  holders :: "string \<rightharpoonup> int"

inductive lock_step :: "bool \<Rightarrow> cluster \<Rightarrow> cluster \<Rightarrow> bool" for timely :: bool where
  enter: "holders c p = None \<Longrightarrow> db_set_nx_ex LOCK_KEY node LOCK_TTL (lock_db c) = (True, db) \<Longrightarrow>
     lock_step timely c \<lparr>lock_db = db, holders = (holders c)(p \<mapsto> server_time db)\<rparr>"
| refused: "holders c p = None \<Longrightarrow> db_set_nx_ex LOCK_KEY node LOCK_TTL (lock_db c) = (False, db) \<Longrightarrow>
     lock_step timely c \<lparr>lock_db = db, holders = holders c\<rparr>"
| leave: "holders c p \<noteq> None \<Longrightarrow>
     lock_step timely c \<lparr>lock_db = db_delete LOCK_KEY (lock_db c), holders = (holders c)(p := None)\<rparr>"
| tick: "0 \<le> d \<Longrightarrow> (\<And>p t. timely \<Longrightarrow> holders c p = Some t \<Longrightarrow> server_time (lock_db c) + d < t + LOCK_TTL) \<Longrightarrow>
     lock_step timely c (c\<lparr>lock_db := (lock_db c)\<lparr>server_time := server_time (lock_db c) + d\<rparr>\<rparr>)"

inductive_cases lock_stepE: "lock_step timely c c'"

definition lock_inv :: "cluster \<Rightarrow> bool" where
  "lock_inv c \<longleftrightarrow>
     (\<forall>p t. holders c p = Some t \<longrightarrow> server_time (lock_db c) < t + LOCK_TTL \<and>
        (\<exists>node. strings (lock_db c) LOCK_KEY = Some (node, t + LOCK_TTL))) \<and>
     (\<forall>p q. holders c p \<noteq> None \<longrightarrow> holders c q \<noteq> None \<longrightarrow> p = q)"

lemma lock_inv_step:
  assumes "lock_step True c c'" and "lock_inv c"
  shows "lock_inv c'"
  using assms
proof (cases rule: lock_step.cases)
  case (enter p node db)
  have "holders c q = None" for q
  proof (rule ccontr)
    assume "holders c q \<noteq> None"
    then obtain t where "holders c q = Some t" by blast
    with assms(2) obtain node where "strings (lock_db c) LOCK_KEY = Some (node, t + LOCK_TTL)"
      and "server_time (lock_db c) < t + LOCK_TTL"
      unfolding lock_inv_def by blast
    then have "db_live (lock_db c) LOCK_KEY \<noteq> None" by (simp add: db_live_def)
    with enter show False by (auto simp: db_set_nx_ex_def)
  qed
  with enter show ?thesis by (auto simp: lock_inv_def db_set_nx_ex_def LOCK_TTL_def split: if_splits)
next
  case (refused p node db)
  with assms(2) show ?thesis by (simp add: lock_inv_def db_set_nx_ex_False)
next
  case (leave p)
  with assms(2) have "holders c' = Map.empty" by (auto simp: lock_inv_def fun_eq_iff)
  then show ?thesis by (simp add: lock_inv_def)
next
  case (tick d)
  with assms(2) show ?thesis by (auto simp: lock_inv_def)
qed

lemma lock_inv_reach: "(lock_step True)\<^sup>*\<^sup>* c c' \<Longrightarrow> lock_inv c \<Longrightarrow> lock_inv c'"
  by (induction rule: rtranclp_induct) (auto intro: lock_inv_step)

subsection \<open>Properties\<close>


definition ex_db :: redis_db where
  "ex_db = \<lparr>hashes = (\<lambda>_. Map.empty), strings = Map.empty, server_time = 0\<rparr>"

definition ex_inside :: cluster where
  "ex_inside = \<lparr>lock_db = snd (db_set_nx_ex LOCK_KEY ''n1'' LOCK_TTL ex_db), holders = [''a'' \<mapsto> 0]\<rparr>"

lemma ex_enter: "lock_step b \<lparr>lock_db = ex_db, holders = Map.empty\<rparr> ex_inside"
  using lock_step.enter [of "\<lparr>lock_db = ex_db, holders = Map.empty\<rparr>" "''a''" "''n1''" "lock_db ex_inside" b]
  by (simp add: ex_inside_def ex_db_def db_set_nx_ex_def db_live_def)


text \<open>
  C7: the calls of the program are steps of the cluster: \<open>acquire_lock\<close>, when it returns, is an
  \<open>enter\<close> or a \<open>refused\<close> step according to its answer, and \<open>release_lock\<close>, when it returns, a
  \<open>leave\<close> step.
\<close>

theorem lock_calls_are_steps:
  assumes env: "backup_env view (=) R fr todo rank OS audit"
  shows "(acquire_lock R OS w = Some (Inr ok, w') \<and> h p = None \<longrightarrow>
       lock_step b \<lparr>lock_db = view w, holders = h\<rparr>
         \<lparr>lock_db = view w', holders = if ok then h(p \<mapsto> server_time (view w')) else h\<rparr>) \<and>
     (release_lock R w = Some (Inr (), w') \<and> h p \<noteq> None \<longrightarrow>
       lock_step b \<lparr>lock_db = view w, holders = h\<rparr> \<lparr>lock_db = view w', holders = h(p := None)\<rparr>)"
proof (intro conjI impI; elim conjE)
  assume run: "acquire_lock R OS w = Some (Inr ok, w')" and p: "h p = None"
  let ?s = "\<lparr>outside = w, initialized = [], init_pending = []\<rparr>"
  have "on_outside (acquire_lock R OS) ?s = Some (Inr ok, ?s\<lparr>outside := w'\<rparr>)"
    using run by (simp add: on_outside_def)
  from wp_returnD [OF backup_env.acquire_lock_wp [OF env] this]
  obtain node where "db_set_nx_ex LOCK_KEY node LOCK_TTL (view w) = (ok, view w')"
    by (auto simp: tried_lock_def)
  with p lock_step.enter [of "\<lparr>lock_db = view w, holders = h\<rparr>" p node "view w'" b]
    lock_step.refused [of "\<lparr>lock_db = view w, holders = h\<rparr>" p node "view w'" b]
  show "lock_step b \<lparr>lock_db = view w, holders = h\<rparr>
      \<lparr>lock_db = view w', holders = if ok then h(p \<mapsto> server_time (view w')) else h\<rparr>"
    by (cases ok) simp_all
next
  assume run: "release_lock R w = Some (Inr (), w')" and p: "h p \<noteq> None"
  have lock: "redis_lock view (=) R" using env by (simp add: backup_env_def redis_backup_def)
  have "view w' = db_delete LOCK_KEY (view w)"
    using redis_lock.delete [OF lock, of LOCK_KEY] run
    by (auto simp: atomic_def release_lock_def write_eff_def dest!: spec [of _ w])
  with p lock_step.leave [of "\<lparr>lock_db = view w, holders = h\<rparr>" p b]
  show "lock_step b \<lparr>lock_db = view w, holders = h\<rparr> \<lparr>lock_db = view w', holders = h(p := None)\<rparr>"
    by simp
qed

theorem lock_calls_are_steps_witness:
  "\<exists>w'. acquire_lock (site_redis id) site_os (ex_site [] []) = Some (Inr True, w') \<and>
     lock_step True \<lparr>lock_db = mem_view (ex_site [] []), holders = Map.empty\<rparr>
       \<lparr>lock_db = mem_view w', holders = [''a'' \<mapsto> server_time (mem_view w')]\<rparr>"
proof -
  have run: "map_option fst (acquire_lock (site_redis id) site_os (ex_site [] [])) = Some (Inr True)"
    by code_simp
  define w' where "w' = snd (the (acquire_lock (site_redis id) site_os (ex_site [] [])))"
  have out: "acquire_lock (site_redis id) site_os (ex_site [] []) = Some (Inr True, w')"
    unfolding w'_def by (rule run_outcome [OF run])
  note step = conjunct1 [OF lock_calls_are_steps [OF site.backup_env_axioms,
    of id "ex_site [] []" True w' Map.empty "''a''" True], THEN mp, OF conjI [OF out refl]]
  show ?thesis by (rule exI [of _ w'], rule conjI [OF out step [simplified]])
qed


text \<open>
  \<open>run_backup\<close> always ends, and gives the lock back: when it returns, the lock is free, or
  it was refused the lock; when it raises, the lock is free, or the run changed nothing, or
  the exception is a Redis error (of the calls on the lock).
\<close>

theorem run_backup_releases_lock:
  assumes env: "backup_env view rely R fr todo rank OS audit" and sched: "\<forall>ts. set (sched ts) = set ts"
  shows "\<exists>r s'. run_backup R OS sched cfg s = Some (r, s') \<and>
    (case r of
       Inr _ \<Rightarrow> strings (view (outside s')) LOCK_KEY = None \<or> tried_lock rely (view (outside s)) False (view (outside s'))
     | Inl e \<Rightarrow> strings (view (outside s')) LOCK_KEY = None \<or> rely (view (outside s)) (view (outside s')) \<or> is_RedisError e)"
  using sched by (intro wp_total_outcome backup_env.run_backup_wp [OF env]) simp

theorem run_backup_releases_lock_witness:
  "\<exists>s'. run_backup (site_redis id) site_os id ex_cfg ex_backup = Some (Inr (), s') \<and>
     strings (mem_view (outside s')) LOCK_KEY = None"
proof -
  have run: "map_option fst (run_backup (site_redis id) site_os id ex_cfg ex_backup) = Some (Inr ())"
    by code_simp
  have free: "\<not> tried_lock (=) (mem_view (outside ex_backup)) False v" for v
    by (simp add: tried_lock_def db_set_nx_ex_def db_live_def ex_backup_def ex_run_state_def ex_site_def mem_view_def)
  have sched: "\<forall>ts :: tasks. set (id ts) = set ts" by simp
  obtain r s' where out: "run_backup (site_redis id) site_os id ex_cfg ex_backup = Some (r, s')"
    and post: "case r of
       Inr _ \<Rightarrow> strings (mem_view (outside s')) LOCK_KEY = None \<or> tried_lock (=) (mem_view (outside ex_backup)) False (mem_view (outside s'))
     | Inl e \<Rightarrow> strings (mem_view (outside s')) LOCK_KEY = None \<or> mem_view (outside ex_backup) = mem_view (outside s') \<or> is_RedisError e"
    using run_backup_releases_lock [OF site.backup_env_axioms sched, of id ex_cfg ex_backup] by blast
  from run out have r: "r = Inr ()" by simp
  from post [unfolded r sum.case] free out [unfolded r] show ?thesis by blast
qed

text \<open>
  C9: while another process holds the lock, a run touches nothing: what happens to Redis is
  what the others do.
\<close>

theorem run_backup_respects_lock:
  assumes env: "backup_env view rely R fr todo rank OS audit"
    and held: "\<forall>v. rely (view (outside s)) v \<longrightarrow> db_live v LOCK_KEY \<noteq> None"
  shows "\<exists>r s'. run_backup R OS sched cfg s = Some (r, s') \<and>
    (case r of Inr _ \<Rightarrow> rely (view (outside s)) (view (outside s'))
     | Inl e \<Rightarrow> rely (view (outside s)) (view (outside s')) \<or> is_RedisError e)"
  using held by (intro wp_total_outcome backup_env.run_backup_held [OF env]) simp

definition ex_held :: "site run_state" where
  "ex_held = ex_run_state ((ex_site [] [])\<lparr>m_str := [LOCK_KEY \<mapsto> (''node2'', 50)]\<rparr>)"

theorem run_backup_respects_lock_witness:
  "\<exists>s'. run_backup (site_redis id) site_os id ex_cfg ex_held = Some (Inr (), s') \<and>
     mem_view (outside s') = mem_view (outside ex_held)"
proof -
  have run: "map_option fst (run_backup (site_redis id) site_os id ex_cfg ex_held) = Some (Inr ())"
    by code_simp
  have "\<forall>v. mem_view (outside ex_held) = v \<longrightarrow> db_live v LOCK_KEY \<noteq> None"
    by (simp add: ex_held_def ex_run_state_def ex_site_def db_live_def mem_view_def)
  then obtain r s' where out: "run_backup (site_redis id) site_os id ex_cfg ex_held = Some (r, s')"
    and post: "case r of Inr _ \<Rightarrow> mem_view (outside ex_held) = mem_view (outside s')
     | Inl e \<Rightarrow> mem_view (outside ex_held) = mem_view (outside s') \<or> is_RedisError e"
    using run_backup_respects_lock [OF site.backup_env_axioms, of ex_held id id ex_cfg] by blast
  from run out have r: "r = Inr ()" by simp
  from post [unfolded r sum.case] out [unfolded r] show ?thesis by (metis)
qed

end
