(* ===== verification/Depot.thy ===== *)
theory Depot
  imports BackupLock
begin

text \<open>
  What \<open>backup/prune.py\<close> and \<open>backup/cli.py\<close> need besides Redis: the MinIO client (a parameter, the
  two calls the sources make), restic as a subprocess, and the standard streams. Their contract is
  stated over a view that keeps the names of the bucket's objects, the events queued in Redis, the restic invocations so
  far with their exit codes, and the lines written, so that the properties can say which repositories a
  command touched and what it told the user. A scripted desk meets the contract.
\<close>

subsection \<open>The MinIO client and the view\<close>

text \<open>
  \<open>mn_connect\<close> is \<open>Minio(endpoint, access_key, secret_key, secure)\<close>; \<open>mn_list_objects\<close> gives the
  names \<open>client.list_objects(bucket, recursive=True)\<close> yields. The sources only collect them, so a
  listing that breaks off in the middle is one that raises.
\<close>

record 'w minio_client =
  mn_connect :: "cfgval \<Rightarrow> cfgval \<Rightarrow> cfgval \<Rightarrow> cfgval \<Rightarrow> ('w, unit) py"
  mn_list_objects :: "cfgval \<Rightarrow> ('w, string list) py"

type_synonym restic_call = "cfgval \<times> string list \<times> environ"

record depot =
  stored :: "string list"
  queued :: "(string \<times> string) list"
  calls :: "restic_call list"
  codes :: "int list"
  out_lines :: "string list"
  err_lines :: "string list"

definition called :: "restic_call \<Rightarrow> depot \<Rightarrow> exn + int \<times> string \<times> string \<Rightarrow> depot \<Rightarrow> bool" where
  "called c v r v' \<longleftrightarrow> calls v' = calls v @ [c] \<and> out_lines v' = out_lines v \<and> err_lines v' = err_lines v \<and>
     codes v' = codes v @ (case r of Inr (rc, _) \<Rightarrow> [rc] | Inl _ \<Rightarrow> [])"

definition listing_eff :: "depot \<Rightarrow> exn + string list \<Rightarrow> depot \<Rightarrow> bool" where
  "listing_eff v r v' \<longleftrightarrow> v' = v \<and> (case r of Inr names \<Rightarrow> names = stored v | Inl _ \<Rightarrow> True)"

text \<open>
  Others may change the bucket and the queue (as \<open>others\<close> allows), never the record of what this process did.
  Every call returns; reading the environment does not raise.
\<close>

locale depot_env =
  fixes see :: "'w \<Rightarrow> depot" and others :: "depot \<Rightarrow> depot \<Rightarrow> bool"
    and OS :: "'w os" and M :: "'w minio_client"
  assumes others_refl: "others v v"
    and others_trans: "others u v \<Longrightarrow> others v w \<Longrightarrow> others u w"
    and others_frame: "others u v \<Longrightarrow> calls v = calls u \<and> codes v = codes u \<and> out_lines v = out_lines u \<and> err_lines v = err_lines u"
    and run_called: "atomic see others (called (restic, args, env)) (os_run OS restic args env timeout)"
    and environ_read: "atomic see others (\<lambda>v r v'. v' = v \<and> (\<exists>x. r = Inr x)) (os_environ OS)"
    and connect_quiet: "quiet see others (mn_connect M endpoint access secret secure)"
    and listing: "atomic see others listing_eff (mn_list_objects M bucket)"
begin

lemma quiet_wp:
  assumes "others v (see w)" and "quiet see others m"
    and "\<And>x w'. others v (see w') \<Longrightarrow> Q x w'" and "\<And>e w'. others v (see w') \<Longrightarrow> E e w'"
  shows "wp d m Q E w"
  by (rule atomic_wp [OF assms(2)]) (use assms(3,4) others_trans [OF assms(1)] in simp_all)

lemma run_wp:
  "wp d (os_run OS restic args env timeout)
     (\<lambda>r w'. called (restic, args, env) (see w) (Inr r) (see w'))
     (\<lambda>e w'. called (restic, args, env) (see w) (Inl e) (see w')) w"
  by (rule atomic_wp [OF run_called]) (auto simp: called_def dest!: others_frame)

lemma environ_wp:
  assumes "others v (see w)" and "\<And>x w'. others v (see w') \<Longrightarrow> Q x w'"
  shows "wp d (os_environ OS) Q E w"
  by (rule atomic_wp [OF environ_read]) (use assms(2) others_trans [OF assms(1)] in auto)

lemma listing_wp:
  assumes "others v (see w)"
    and "\<And>w'. others v (see w') \<Longrightarrow> Q (stored (see w')) w'" and "\<And>e w'. others v (see w') \<Longrightarrow> E e w'"
  shows "wp d (mn_list_objects M bucket) Q E w"
  by (rule atomic_wp [OF listing]) (use assms(2,3) others_trans [OF assms(1)] in \<open>auto simp: listing_eff_def\<close>)

end

subsection \<open>A scripted desk\<close>

text \<open>
  An in-memory Redis, a bucket, and a restic whose results (exit code, standard output, standard
  error) are a script; an exhausted script gives success without output.
\<close>

record desk = mem +
  dk_depot :: depot
  dk_results :: "(int \<times> string \<times> string) list"
  dk_environ :: environ
  dk_clock :: int

definition desk_os :: "desk os" where
  "desk_os = \<lparr>
     os_run = (\<lambda>restic args env timeout w. Some
        (Inr (case dk_results w of [] \<Rightarrow> (0, [], []) | res # _ \<Rightarrow> res),
         w\<lparr>dk_results := tl (dk_results w),
           dk_depot := (dk_depot w)\<lparr>calls := calls (dk_depot w) @ [(restic, args, env)],
             codes := codes (dk_depot w) @ [case dk_results w of [] \<Rightarrow> 0 | res # _ \<Rightarrow> fst res]\<rparr>\<rparr>)),
     os_exists = (\<lambda>p. return_py True),
     os_mktemp = return_py ''/tmp/list.txt'',
     os_write = (\<lambda>name text. return_py ()),
     os_unlink = (\<lambda>name. return_py ()),
     os_sleep = (\<lambda>secs. modify_py (\<lambda>w. w\<lparr>dk_clock := dk_clock w + secs\<rparr>)),
     os_time = get_py (\<lambda>w. of_int (dk_clock w)),
     os_hostname = return_py ''node1'',
     os_environ = get_py dk_environ\<rparr>"

definition desk_minio :: "desk minio_client" where
  "desk_minio = \<lparr>
     mn_connect = (\<lambda>endpoint access secret secure. return_py ()),
     mn_list_objects = (\<lambda>bucket. get_py (\<lambda>w. stored (dk_depot w)))\<rparr>"

lemma pure_quiet:
  "quiet view (=) (return_py x)" "quiet view (=) (get_py f)"
  by (simp_all add: atomic_def return_py_def get_py_def)

text \<open>What the desk shows: its depot, with the hash \<open>pending\<close> of its Redis as the queue.\<close>

definition desk_see :: "'z desk_scheme \<Rightarrow> depot" where
  "desk_see w = (dk_depot w)\<lparr>queued := m_hash w ''pending''\<rparr>"

interpretation desk: depot_env desk_see "(=)" desk_os desk_minio
proof
  show "atomic desk_see (=) (called (restic, args, env)) (os_run desk_os restic args env timeout)"
    for restic args env timeout
    by (auto simp: atomic_def called_def desk_os_def desk_see_def split: list.split)
  show "atomic desk_see (=) (\<lambda>v r v'. v' = v \<and> (\<exists>x. r = Inr x)) (os_environ desk_os)"
    by (simp add: atomic_def desk_os_def get_py_def)
  show "atomic desk_see (=) listing_eff (mn_list_objects desk_minio bucket)" for bucket
    by (simp add: atomic_def listing_eff_def desk_minio_def desk_see_def get_py_def)
qed (auto simp: desk_minio_def pure_quiet)

text \<open>Redis calls leave the depot alone, and the depot's calls leave Redis alone.\<close>

lemma mem_call_quiet:
  assumes "\<And>w :: 'z desk_scheme. desk_see (snd (f w)) = desk_see w"
  shows "quiet desk_see (=) (mem_call f)"
  unfolding atomic_def
proof
  fix w :: "'z desk_scheme"
  have "desk_see (w\<lparr>m_faults := bs\<rparr>) = desk_see w" for bs by (simp add: desk_see_def)
  then show "\<exists>r w' v. mem_call f w = Some (r, w') \<and> desk_see w = v \<and> desk_see w' = v"
    using assms [of w] assms [of "w\<lparr>m_faults := tl (m_faults w)\<rparr>"]
    by (cases "f w"; cases "m_faults w"; cases "f (w\<lparr>m_faults := tl (m_faults w)\<rparr>)")
      (auto simp: mem_call_def)
qed

lemma desk_redis_quiet:
  "quiet desk_see (=) (rd_from_url (mem_redis fr) url)"
  "quiet desk_see (=) (rd_set_nx_ex (mem_redis fr) key val ttl)"
  "quiet desk_see (=) (rd_get (mem_redis fr) key)"
  "quiet desk_see (=) (rd_delete (mem_redis fr) ''backup:lock'')"
  by (auto simp: mem_redis_def mem_set_hash_def desk_see_def atomic_intro [of _ "\<lambda>_. Inr ()" "\<lambda>w. w"] intro!: mem_call_quiet)

end
