(* ===== verification/Prune.thy ===== *)
theory Prune
  imports Depot
begin

text \<open>
  \<open>backup/prune.py\<close>: dropping old snapshots from every repository of the bucket, under the lock
  it shares with the backup run. Log calls and the logging set-up are left out; the
  configuration is the dictionary \<open>toml.load\<close> gave.
\<close>

subsection \<open>Definitions\<close>

text \<open>One round of the loop over the repositories.\<close>

definition prune_repo :: "'w os \<Rightarrow> cfgval \<Rightarrow> cfgval \<Rightarrow> environ \<Rightarrow> string \<Rightarrow> ('w, unit) py" where
  "prune_repo OS restic keep_days env url =
     bind_py (os_run OS restic
        [''forget'', ''--keep-within='' @ str_cfg keep_days @ ''d'', ''--prune'', ''-r'', url] env None)
     (\<lambda>(rc, out, err). if rc \<noteq> 0 then bind_py (lift_sum (decode_utf8 err)) (\<lambda>_. return_py ()) else return_py ())"

definition prune_all_repos :: "'w minio_client \<Rightarrow> 'w os \<Rightarrow> config \<Rightarrow> ('w, unit) py" where
  "prune_all_repos M OS cfg =
     bind_py (os_environ OS) (\<lambda>environ.
     bind_py (lift_sum (prune_restic_env environ)) (\<lambda>env.
     bind_py (lift_sum (cfg_item cfg ''minio'' ''endpoint'')) (\<lambda>endpoint.
     bind_py (lift_sum (cfg_item cfg ''minio'' ''bucket'')) (\<lambda>bucket.
     bind_py (lift_sum (cfg_get cfg ''minio'' ''use_tls'' (CBool False))) (\<lambda>use_tls.
     let keep_days = cfg_get_get cfg ''prune'' ''keep_days'' (CInt 90) in
     bind_py (lift_sum (cfg_get cfg ''backup'' ''restic_binary'' (CStr ''restic''))) (\<lambda>restic.
     seq_py (mn_connect M endpoint (the (env ''AWS_ACCESS_KEY_ID'')) (the (env ''AWS_SECRET_ACCESS_KEY'')) use_tls)
     (bind_py (mn_list_objects M bucket) (\<lambda>objects.
      for_py (discover_repos objects) (\<lambda>repo_prefix.
        prune_repo OS restic keep_days env (url_of use_tls endpoint bucket repo_prefix))))))))))"

text \<open>The lock: the same key as the backup's, with the host name and \<open>:prune\<close> as its value.\<close>

definition prune_lock :: "'w redis_client \<Rightarrow> 'w os \<Rightarrow> ('w, bool) py" where
  "prune_lock R OS =
     bind_py (os_hostname OS) (\<lambda>node_id.
     rd_set_nx_ex R ''backup:lock'' (node_id @ '':prune'') 7200)"

definition prune_main :: "'w redis_client \<Rightarrow> 'w minio_client \<Rightarrow> 'w os \<Rightarrow> config \<Rightarrow> ('w, unit) py" where
  "prune_main R M OS cfg =
     bind_py (lift_sum (cfg_item cfg ''db'' ''redis_url'')) (\<lambda>url.
     seq_py (rd_from_url R url)
     (bind_py (prune_lock R OS) (\<lambda>ok.
      if \<not> ok then seq_py (rd_get R ''backup:lock'') (raise_py (SystemExit 0))
      else try_finally (prune_all_repos M OS cfg) (rd_delete R ''backup:lock''))))"

subsection \<open>Which repositories are visited\<close>

text \<open>The invocations pruning should make: one per repository, in order.\<close>

definition forget_call :: "cfgval \<Rightarrow> cfgval \<Rightarrow> environ \<Rightarrow> string \<Rightarrow> restic_call" where
  "forget_call restic keep_days env url =
     (restic, [''forget'', ''--keep-within='' @ str_cfg keep_days @ ''d'', ''--prune'', ''-r'', url], env)"

text \<open>\<open>forgot cfg v0 v1 rids\<close>: between the two views, exactly the repositories \<open>rids\<close> were pruned.\<close>

definition forgot :: "config \<Rightarrow> depot \<Rightarrow> depot \<Rightarrow> string list \<Rightarrow> bool" where
  "forgot cfg v0 v1 rids \<longleftrightarrow> (\<exists>restic env url.
     restic_bin cfg = Inr restic \<and> (\<forall>rid. repo_url cfg rid = Inr (url rid)) \<and>
     {''RESTIC_PASSWORD'', ''AWS_ACCESS_KEY_ID'', ''AWS_SECRET_ACCESS_KEY''} \<subseteq> dom env \<and>
     calls v1 = calls v0 @
       map (\<lambda>rid. forget_call restic (cfg_get_get cfg ''prune'' ''keep_days'' (CInt 90)) env (url rid)) rids)"

lemma forgot_cong: "calls a = calls a' \<Longrightarrow> calls b = calls b' \<Longrightarrow> forgot cfg a b rids = forgot cfg a' b' rids"
  by (simp add: forgot_def)

context depot_env
begin

lemma prune_repo_wp:
  "wp False (prune_repo OS restic keep env url)
     (\<lambda>_ w'. calls (see w') = calls (see w) @ [forget_call restic keep env url])
     (\<lambda>_ w'. calls (see w') = calls (see w) @ [forget_call restic keep env url]) w"
  unfolding prune_repo_def wp_bind
  by (rule wp_mono [OF run_wp]) (auto simp: forget_call_def called_def wp_rules split: sum.split)

lemma prune_loop_wp:
  "wp False (for_py rids (\<lambda>rid. prune_repo OS restic keep env (url rid)))
     (\<lambda>_ w'. calls (see w') = calls (see w) @ map (\<lambda>rid. forget_call restic keep env (url rid)) rids)
     (\<lambda>_ w'. \<exists>k \<le> length rids. calls (see w') = calls (see w) @ map (\<lambda>rid. forget_call restic keep env (url rid)) (take k rids)) w"
proof -
  let ?F = "\<lambda>rid. forget_call restic keep env (url rid)"
  define I where "I = (\<lambda>xs s. \<exists>ys. rids = ys @ xs \<and> calls (see s) = calls (see w) @ map ?F ys)"
  have "wp False (for_py rids (\<lambda>rid. prune_repo OS restic keep env (url rid))) (\<lambda>_. I [])
      (\<lambda>_ w'. \<exists>k \<le> length rids. calls (see w') = calls (see w) @ map ?F (take k rids)) w"
  proof (rule wp_for)
    fix x xs s
    assume "I (x # xs) s"
    then obtain ys where ys: "rids = ys @ x # xs" "calls (see s) = calls (see w) @ map ?F ys"
      by (auto simp: I_def)
    have "\<exists>k \<le> length rids. calls (see w) @ map ?F ys @ [?F x] = calls (see w) @ map ?F (take k rids)"
      using ys by (intro exI [of _ "Suc (length ys)"]) simp
    with ys show "wp False (prune_repo OS restic keep env (url x)) (\<lambda>_. I xs)
        (\<lambda>_ w'. \<exists>k \<le> length rids. calls (see w') = calls (see w) @ map ?F (take k rids)) s"
      by (intro wp_mono [OF prune_repo_wp]) (auto simp: I_def)
  qed (auto simp: I_def)
  then show ?thesis by (rule wp_mono) (auto simp: I_def)
qed

text \<open>
  A prune that returns has visited every repository of the bucket as it was when listed; one that
  raises has visited none, or the first few.
\<close>

lemma prune_all_repos_wp:
  "wp False (prune_all_repos M OS cfg)
     (\<lambda>_ w'. \<exists>v. others (see w) v \<and> forgot cfg (see w) (see w') (discover_repos (stored v)))
     (\<lambda>_ w'. calls (see w') = calls (see w) \<or>
        (\<exists>v k. others (see w) v \<and> forgot cfg (see w) (see w') (take k (discover_repos (stored v))))) w"
    (is "wp False _ ?Q ?E w")
proof -
  have none: "?E e w1" if "others (see w) (see w1)" for e w1
    using others_frame [OF that] by simp
  have body: "wp False (seq_py (mn_connect M endpoint access secret use_tls)
      (bind_py (mn_list_objects M bucket) (\<lambda>objects.
        for_py (discover_repos objects) (\<lambda>rid. prune_repo OS restic keep env (url_of use_tls endpoint bucket rid)))))
      ?Q ?E w1"
    if o1: "others (see w) (see w1)" and restic: "restic_bin cfg = Inr restic"
      and url: "\<And>rid. repo_url cfg rid = Inr (url_of use_tls endpoint bucket rid)"
      and env: "{''RESTIC_PASSWORD'', ''AWS_ACCESS_KEY_ID'', ''AWS_SECRET_ACCESS_KEY''} \<subseteq> dom env"
      and keep: "keep = cfg_get_get cfg ''prune'' ''keep_days'' (CInt 90)"
    for w1 restic keep env use_tls endpoint bucket access secret
  proof -
    have forgot: "forgot cfg (see w) v' rids" if "others (see w) v"
      "calls v' = calls v @ map (\<lambda>rid. forget_call restic keep env (url_of use_tls endpoint bucket rid)) rids" for v v' rids
      unfolding forgot_def using that(2) others_frame [OF that(1)] restic url env keep
      by (intro exI [of _ restic] exI [of _ env] exI [of _ "url_of use_tls endpoint bucket"]) simp
    have loop: "wp False (for_py (discover_repos (stored (see w3)))
        (\<lambda>rid. prune_repo OS restic keep env (url_of use_tls endpoint bucket rid))) ?Q ?E w3"
      if "others (see w) (see w3)" for w3
      by (rule wp_mono [OF prune_loop_wp]) (use forgot [OF that] that in blast)+
    show ?thesis
      unfolding wp_seq wp_bind
      by (rule quiet_wp [OF o1 connect_quiet], erule listing_wp, erule loop, erule none, erule none)
  qed
  show ?thesis
    unfolding prune_all_repos_def wp_bind [of _ "os_environ OS"]
  proof (rule environ_wp [OF others_refl], unfold Let_def, intro wp_lift_bindI)
    fix environ w1 env endpoint bucket use_tls restic
    assume "others (see w) (see w1)" and "prune_restic_env environ = Inr env"
      and "cfg_item cfg ''minio'' ''endpoint'' = Inr endpoint" and "cfg_item cfg ''minio'' ''bucket'' = Inr bucket"
      and "cfg_get cfg ''minio'' ''use_tls'' (CBool False) = Inr use_tls"
      and "cfg_get cfg ''backup'' ''restic_binary'' (CStr ''restic'') = Inr restic"
    then show "wp False (seq_py (mn_connect M endpoint (the (env ''AWS_ACCESS_KEY_ID''))
          (the (env ''AWS_SECRET_ACCESS_KEY'')) use_tls)
        (bind_py (mn_list_objects M bucket) (\<lambda>objects. for_py (discover_repos objects)
          (\<lambda>rid. prune_repo OS restic (cfg_get_get cfg ''prune'' ''keep_days'' (CInt 90)) env
            (url_of use_tls endpoint bucket rid))))) ?Q ?E w1"
      by (intro body) (auto simp: prune_restic_env_def require_env_iff restic_bin_def repo_url_def split: if_splits)
  qed (erule none)+
qed

end

subsection \<open>Under the lock\<close>

text \<open>Redis and the rest are separate services: a call on one leaves what the other shows alone.\<close>

locale prune_env = lock: redis_lock view rely R + depot_env see others OS M
  for view :: "'w \<Rightarrow> redis_db" and rely and R :: "'w redis_client" and see others OS M +
  assumes from_url_view: "quiet view rely (rd_from_url R url)"
    and hostname_view: "quiet view rely (os_hostname OS)"
    and from_url_see: "quiet see others (rd_from_url R url)"
    and hostname_see: "quiet see others (os_hostname OS)"
    and set_see: "quiet see others (rd_set_nx_ex R key val ttl)"
    and get_see: "quiet see others (rd_get R key)"
    and delete_see: "quiet see others (rd_delete R ''backup:lock'')"
begin

lemma prune_lock_wp:
  "wp False (prune_lock R OS) (\<lambda>ok w'. tried_lock rely (view w) ok (view w') \<and> others (see w) (see w'))
     (\<lambda>e w'. (rely (view w) (view w') \<or> is_RedisError e) \<and> others (see w) (see w')) w"
proof (rule wp_conj)
  have tried: "tried_lock rely (view w) ok v'"
    if "rely (view w) u" and "rely u v" and "(ok, v') = db_set_nx_ex ''backup:lock'' node 7200 v" for u v ok v' node
    unfolding tried_lock_def LOCK_KEY_def LOCK_TTL_def
    using that(3) lock.rely_trans [OF that(1,2)] lock.rely_refl
    by (intro exI [of _ v] exI [of _ v'] exI [of _ node]) simp
  show "wp False (prune_lock R OS) (\<lambda>ok w'. tried_lock rely (view w) ok (view w'))
     (\<lambda>e w'. rely (view w) (view w') \<or> is_RedisError e) w"
    unfolding prune_lock_def wp_bind
    by (rule atomic_wp [OF hostname_view], rule atomic_wp [OF lock.set_nx_ex])
      (auto simp: set_nx_eff_def LOCK_KEY_def LOCK_TTL_def intro: tried)
  show "wp False (prune_lock R OS) (\<lambda>_ w'. others (see w) (see w')) (\<lambda>_ w'. others (see w) (see w')) w"
    unfolding prune_lock_def wp_bind
    by (rule quiet_wp [OF others_refl hostname_see], erule quiet_wp [OF _ set_see])
qed

lemma release_wp:
  "wp False (rd_delete R ''backup:lock'')
     (\<lambda>_ w'. strings (view w') LOCK_KEY = None \<and> others (see w) (see w'))
     (\<lambda>e w'. is_RedisError e \<and> others (see w) (see w')) w"
  by (rule wp_conj [OF atomic_wp [OF lock.delete] quiet_wp [OF others_refl delete_see]])
    (auto simp: write_eff_def db_delete_def LOCK_KEY_def)

text \<open>
  Restic is only called between taking the lock and giving it back, and whoever is refused the
  lock exits with status 0.
\<close>

lemma prune_main_wp:
  "wp False (prune_main R M OS cfg)
     (\<lambda>_ w'. strings (view w') LOCK_KEY = None \<and> (\<exists>v. tried_lock rely (view w) True v) \<and>
        (\<exists>v. others (see w) v \<and> forgot cfg (see w) (see w') (discover_repos (stored v))))
     (\<lambda>e w'. (\<exists>v. tried_lock rely (view w) True v) \<and> (strings (view w') LOCK_KEY = None \<or> is_RedisError e) \<or>
        calls (see w') = calls (see w) \<and>
          (e = SystemExit 0 \<and> tried_lock rely (view w) False (view w') \<or> rely (view w) (view w') \<or> is_RedisError e)) w"
    (is "wp False _ ?Q ?E w")
proof -
  have locked: "wp False (try_finally (prune_all_repos M OS cfg) (rd_delete R ''backup:lock'')) ?Q ?E w1"
    if t: "tried_lock rely (view w) True (view w1)" and o: "others (see w) (see w1)" for w1
  proof -
    have all: "\<exists>v. others (see w) v \<and> forgot cfg (see w) (see w3) (discover_repos (stored v))"
      if "others (see w1) v" "forgot cfg (see w1) (see w2) (discover_repos (stored v))" "others (see w2) (see w3)" for v w2 w3
      using that(2) forgot_cong [of "see w" "see w1" "see w3" "see w2"] others_frame [OF o] others_frame [OF that(3)]
        others_trans [OF o that(1)] by auto
    have held: "\<exists>v. tried_lock rely (view w) True v" using t ..
    have release: "wp False (rd_delete R ''backup:lock'') (\<lambda>_. ?E e) ?E w2" for e w2
      by (rule wp_mono [OF release_wp]) (use held in simp_all)
    have finish: "wp False (rd_delete R ''backup:lock'') (\<lambda>_. ?Q ()) ?E w2"
      if "\<exists>v. others (see w1) v \<and> forgot cfg (see w1) (see w2) (discover_repos (stored v))" for w2
      using that by (intro wp_mono [OF release_wp]) (use held all in blast)+
    show ?thesis
      unfolding wp_try_finally
      by (rule wp_mono [OF prune_all_repos_wp]) (use finish release in simp_all)
  qed
  have refused: "wp False (seq_py (rd_get R ''backup:lock'') (raise_py (SystemExit 0))) ?Q ?E w1"
    if t: "tried_lock rely (view w) False (view w1)" and o: "others (see w) (see w1)" for w1
  proof -
    have "wp False (rd_get R ''backup:lock'') (\<lambda>_ w'. tried_lock rely (view w) False (view w') \<and> others (see w) (see w'))
        (\<lambda>e w'. is_RedisError e \<and> others (see w) (see w')) w1"
      using t by (intro wp_conj [OF atomic_wp [OF lock.get] quiet_wp [OF o get_see]])
        (auto simp: read_eff_def tried_lock_def intro: lock.rely_trans)
    then show ?thesis
      unfolding wp_seq wp_raise by (rule wp_mono) (auto dest: others_frame)
  qed
  have url: "wp False (rd_from_url R url) (\<lambda>_ w'. rely (view w) (view w') \<and> others (see w) (see w'))
      (\<lambda>_ w'. rely (view w) (view w') \<and> others (see w) (see w')) w" for url
    by (intro wp_conj [OF atomic_wp [OF from_url_view] quiet_wp [OF others_refl from_url_see]]) auto
  have tried: "tried_lock rely (view w) ok v" if "rely (view w) u" "tried_lock rely u ok v" for u ok v
    using that lock.rely_trans unfolding tried_lock_def by blast
  have "wp False (bind_py (prune_lock R OS) (\<lambda>ok.
      if \<not> ok then seq_py (rd_get R ''backup:lock'') (raise_py (SystemExit 0))
      else try_finally (prune_all_repos M OS cfg) (rd_delete R ''backup:lock''))) ?Q ?E w1"
    if r: "rely (view w) (view w1)" and o: "others (see w) (see w1)" for w1
  proof (rule wp_bindI [where P = "\<lambda>ok w2. tried_lock rely (view w) ok (view w2) \<and> others (see w) (see w2)"])
    show "wp False (prune_lock R OS) (\<lambda>ok w2. tried_lock rely (view w) ok (view w2) \<and> others (see w) (see w2)) ?E w1"
      by (rule wp_mono [OF prune_lock_wp]) (auto intro: tried [OF r] others_trans [OF o]
        lock.rely_trans [OF r] dest: others_trans [OF o, THEN others_frame])
  next
    fix ok w2 assume "tried_lock rely (view w) ok (view w2) \<and> others (see w) (see w2)"
    then show "wp False (if \<not> ok then seq_py (rd_get R ''backup:lock'') (raise_py (SystemExit 0))
        else try_finally (prune_all_repos M OS cfg) (rd_delete R ''backup:lock'')) ?Q ?E w2"
      by (cases ok) (simp_all only: simp_thms if_True if_False locked refused)
  qed
  then show ?thesis
    unfolding prune_main_def
    by (intro wp_lift_bindI wp_seqI [where P = "\<lambda>w'. rely (view w) (view w') \<and> others (see w) (see w')"])
      (auto intro!: wp_mono [OF url] simp: lock.rely_refl dest: others_frame)
qed

end

interpretation desk: prune_env mem_view "(=)" "mem_redis fr" desk_see "(=)" desk_os desk_minio
proof
  show "quiet mem_view (=) (rd_from_url (mem_redis fr) url)" for url
    by (simp add: mem_redis_def atomic_def)
  show "quiet mem_view (=) (os_hostname desk_os)" "quiet desk_see (=) (os_hostname desk_os)"
    by (simp_all add: desk_os_def pure_quiet)
qed (rule desk_redis_quiet)+

subsection \<open>Properties\<close>

text \<open>
  C34: pruning always ends. When it returns, restic was called with \<open>forget --prune\<close> exactly once
  for every repository the bucket holds, in ascending order, with the URL the backup uses for that
  repository; when it raises, for none or for the first few of them, and for nothing else.
\<close>

theorem prune_forgets_every_repo:
  assumes env: "depot_env see others OS M"
  shows "\<exists>r w'. prune_all_repos M OS cfg w = Some (r, w') \<and>
    (case r of
       Inr _ \<Rightarrow> (\<exists>v. others (see w) v \<and> forgot cfg (see w) (see w') (discover_repos (stored v)))
     | Inl e \<Rightarrow> calls (see w') = calls (see w) \<or>
        (\<exists>v k. others (see w) v \<and> forgot cfg (see w) (see w') (take k (discover_repos (stored v)))))"
  by (rule wp_total_outcome [OF depot_env.prune_all_repos_wp [OF env]])

definition ex_prune_cfg :: config where
  "ex_prune_cfg = [''db'' \<mapsto> [''redis_url'' \<mapsto> CStr ''redis://r''], ''backup'' \<mapsto> Map.empty,
     ''minio'' \<mapsto> [''endpoint'' \<mapsto> CStr ''m:9000'', ''bucket'' \<mapsto> CStr ''b'']]"

definition ex_desk :: "(int \<times> string \<times> string) list \<Rightarrow> desk" where
  "ex_desk results = \<lparr>m_hash = (\<lambda>_. []), m_str = (\<lambda>_. None), m_time = 0, m_faults = [],
     dk_depot = \<lparr>stored = [''s2/v/config'', ''s1/u/config'', ''s1/u/data/00''], queued = [], calls = [], codes = [], out_lines = [], err_lines = []\<rparr>,
     dk_results = results,
     dk_environ = [''RESTIC_PASSWORD'' \<mapsto> CStr ''p'', ''AWS_ACCESS_KEY_ID'' \<mapsto> CStr ''a'', ''AWS_SECRET_ACCESS_KEY'' \<mapsto> CStr ''s''],
     dk_clock = 0\<rparr>"

theorem prune_forgets_every_repo_witness:
  "\<exists>w'. prune_all_repos desk_minio desk_os ex_prune_cfg (ex_desk [(1, [], ''x'')]) = Some (Inr (), w') \<and>
     forgot ex_prune_cfg (desk_see (ex_desk [])) (desk_see w') [''s1/u'', ''s2/v'']"
proof -
  have run: "map_option fst (prune_all_repos desk_minio desk_os ex_prune_cfg (ex_desk [(1, [], ''x'')])) = Some (Inr ())"
    by code_simp
  have repos: "discover_repos (stored (desk_see (ex_desk [(1, [], ''x'')]))) = [''s1/u'', ''s2/v'']"
    by code_simp
  have same: "desk_see (ex_desk [(1, [], ''x'')]) = desk_see (ex_desk [])" by (simp add: ex_desk_def desk_see_def)
  from outcome_returns [OF prune_forgets_every_repo [OF desk.depot_env_axioms] run] show ?thesis
    by (auto simp: repos simp flip: same)
qed



text \<open>
  C36: the lock of the prune is the lock of the backup: taking it is an \<open>enter\<close> or a \<open>refused\<close> step of
  the same cluster, so a prune and a backup exclude each other as two backups do.
\<close>

theorem prune_lock_is_lock_step:
  assumes lock: "redis_lock view (=) R" and host: "quiet view (=) (os_hostname OS)"
    and run: "prune_lock R OS w = Some (Inr ok, w')" and out: "h p = None"
  shows "lock_step b \<lparr>lock_db = view w, holders = h\<rparr>
      \<lparr>lock_db = view w', holders = if ok then h(p \<mapsto> server_time (view w')) else h\<rparr>"
proof -
  have "wp True (prune_lock R OS) (\<lambda>ok w'. \<exists>node. db_set_nx_ex LOCK_KEY node LOCK_TTL (view w) = (ok, view w')) (\<lambda>_ _. True) w"
    unfolding prune_lock_def wp_bind LOCK_KEY_def LOCK_TTL_def
    by (rule atomic_wp [OF host], rule atomic_wp [OF redis_lock.set_nx_ex [OF lock]])
      (simp_all add: set_nx_eff_def eq_commute [of "(x, y)" for x y], blast)
  from wp_returnD [OF this run]
  obtain node where "db_set_nx_ex LOCK_KEY node LOCK_TTL (view w) = (ok, view w')" ..
  with out lock_step.enter [of "\<lparr>lock_db = view w, holders = h\<rparr>" p node "view w'" b]
    lock_step.refused [of "\<lparr>lock_db = view w, holders = h\<rparr>" p node "view w'" b]
  show ?thesis by (cases ok) simp_all
qed

theorem prune_lock_is_lock_step_witness:
  "\<exists>w'. prune_lock (mem_redis id) desk_os (ex_desk []) = Some (Inr True, w') \<and>
     lock_step True \<lparr>lock_db = mem_view (ex_desk []), holders = Map.empty\<rparr>
       \<lparr>lock_db = mem_view w', holders = [''a'' \<mapsto> server_time (mem_view w')]\<rparr>"
proof -
  have run: "map_option fst (prune_lock (mem_redis id) desk_os (ex_desk [])) = Some (Inr True)"
    by code_simp
  note out = run_outcome [OF run]
  have host: "quiet mem_view (=) (os_hostname desk_os)" by (simp add: desk_os_def pure_quiet)
  note step = prune_lock_is_lock_step [OF mem.redis_lock_axioms host out, of Map.empty "''a''" True]
  show ?thesis by (rule exI, rule conjI [OF out step [simplified]])
qed

text \<open>
  Without one of the three credentials in the environment nothing is pruned and nothing is
  listed: the first missing name is raised at once (\<open>prune.py\<close> does not read the
  credentials of the configuration file, unlike the backup).
\<close>

theorem prune_needs_credentials:
  assumes "os_environ OS w = Some (Inr env, w')"
    and "find (\<lambda>k. env k = None) [''RESTIC_PASSWORD'', ''AWS_ACCESS_KEY_ID'', ''AWS_SECRET_ACCESS_KEY''] = Some key"
  shows "prune_all_repos M OS cfg w = Some (Inl (RuntimeError key), w')"
  using assms by (auto simp: prune_all_repos_def prune_restic_env_def bind_py_def lift_sum_def split: if_splits)

theorem prune_needs_credentials_witness:
  "prune_all_repos desk_minio desk_os ex_prune_cfg ((ex_desk [])\<lparr>dk_environ := [''RESTIC_PASSWORD'' \<mapsto> CStr ''p'']\<rparr>) =
     Some (Inl (RuntimeError ''AWS_ACCESS_KEY_ID''), (ex_desk [])\<lparr>dk_environ := [''RESTIC_PASSWORD'' \<mapsto> CStr ''p'']\<rparr>)"
  by (rule prune_needs_credentials [where env = "[''RESTIC_PASSWORD'' \<mapsto> CStr ''p'']"])
    (simp_all add: desk_os_def get_py_def)

end
