(* ===== verification/Cli.thy ===== *)
theory Cli
  imports Prune
begin

text \<open>
  \<open>backup/cli.py\<close>: the commands \<open>status\<close>, \<open>snapshots\<close> and \<open>restore\<close>. What argparse makes of the command
  line is the argument of \<open>cli_main\<close>. The console (reading the configuration file, printing a line to
  standard output or standard error, flushing) is a parameter like the other services.
\<close>

subsection \<open>Parameters\<close>

record 'w console =
  cn_load :: "string \<Rightarrow> ('w, config) py"
  cn_print :: "string \<Rightarrow> ('w, unit) py"
  cn_error :: "string \<Rightarrow> ('w, unit) py"
  cn_flush :: "('w, unit) py"

text \<open>The parsed command line: the sub-command with its options.\<close>

datatype command =
    Status bool
  | Snapshots "string option" "string option" bool
  | Restore string "string option" "string option"

text \<open>Truth of an optional string, and \<open>x or default\<close>.\<close>

definition given :: "string option \<Rightarrow> bool" where
  "given x \<longleftrightarrow> (case x of None \<Rightarrow> False | Some s \<Rightarrow> s \<noteq> [])"

definition or_default :: "string option \<Rightarrow> string \<Rightarrow> string" where
  "or_default x dflt = (if given x then the x else dflt)"

subsection \<open>Repositories\<close>

definition load_config :: "'w console \<Rightarrow> string \<Rightarrow> ('w, config) py" where
  "load_config CN conf = cn_load CN conf"

definition env_get :: "environ \<Rightarrow> string \<Rightarrow> cfgval" where
  "env_get env key = (case env key of None \<Rightarrow> CStr [] | Some v \<Rightarrow> v)"

definition list_repos :: "'w minio_client \<Rightarrow> config \<Rightarrow> environ \<Rightarrow> ('w, string list) py" where
  "list_repos M cfg env =
     bind_py (lift_sum (cfg_item cfg ''minio'' ''endpoint'')) (\<lambda>endpoint.
     bind_py (lift_sum (cfg_item cfg ''minio'' ''bucket'')) (\<lambda>bucket.
     bind_py (lift_sum (cfg_get cfg ''minio'' ''use_tls'' (CBool False))) (\<lambda>use_tls.
     seq_py (mn_connect M endpoint (env_get env ''AWS_ACCESS_KEY_ID'') (env_get env ''AWS_SECRET_ACCESS_KEY'') use_tls)
     (bind_py (mn_list_objects M bucket) (\<lambda>objects. return_py (discover_repos objects))))))"

text \<open>\<open>get_repo_id(args.path, base, depth)\<close> on the configured values.\<close>

definition cli_repo_id_of :: "string \<Rightarrow> cfgval \<Rightarrow> cfgval \<Rightarrow> exn + string option" where
  "cli_repo_id_of path base depth = (case base of
     CStr b \<Rightarrow>
       if \<not> startswith path (b @ ''/'') then Inr None
       else (case depth of
           CInt d \<Rightarrow> Inr (cli_get_repo_id path b d)
         | CBool t \<Rightarrow> Inr (cli_get_repo_id path b (of_bool t))
         | CStr _ \<Rightarrow> Inl TypeError)
   | _ \<Rightarrow> Inl TypeError)"

subsection \<open>status\<close>

text \<open>\<open>by_event[ev] = by_event.get(ev, 0) + 1\<close>, the dictionary in insertion order.\<close>

fun count_event :: "string \<Rightarrow> (string \<times> int) list \<Rightarrow> (string \<times> int) list" where
  "count_event ev [] = [(ev, 1)]"
| "count_event ev ((k, n) # d) = (if k = ev then (k, n + 1) # d else (k, n) # count_event ev d)"

definition by_event :: "(string \<times> string) list \<Rightarrow> (string \<times> int) list" where
  "by_event items = foldl (\<lambda>d (_, ev). count_event ev d) [] items"

text \<open>
  Text mode of a subprocess: decoded, with \<open>CR LF\<close> and \<open>CR\<close> read as a line end. \<open>s[:n]\<close> counts
  characters, that is bytes that do not continue one.
\<close>

fun newlines :: "bool \<Rightarrow> string \<Rightarrow> string" where
  "newlines after_cr [] = []"
| "newlines after_cr (a # s) =
     (if a = CHR 0x0A \<and> after_cr then newlines False s
      else if a = CHR 0x0D then CHR 0x0A # newlines True s
      else a # newlines False s)"

definition universal_newlines :: "string \<Rightarrow> string" where
  "universal_newlines s = newlines False s"

fun take_chars :: "nat \<Rightarrow> string \<Rightarrow> string" where
  "take_chars n [] = []"
| "take_chars n (a # s) =
     (if cont_byte a then a # take_chars n s
      else case n of 0 \<Rightarrow> [] | Suc m \<Rightarrow> a # take_chars m s)"

text \<open>
  \<open>snaps[-1].get("time", "")[:19]\<close>, with \<open>last = ""\<close> when there is no snapshot. restic prints a
  list of objects with a time string; other JSON raises as Python does (up to 3.11 for a
  dictionary under the slice). \<open>rp\<close> is the text of a list, which an f-string would print.
\<close>

definition slice_time :: "(json list \<Rightarrow> string) \<Rightarrow> json \<Rightarrow> exn + string" where
  "slice_time rp t = (case t of
     JStr s \<Rightarrow> Inr (take_chars 19 s)
   | JArr xs \<Rightarrow> Inr (rp (take 19 xs))
   | _ \<Rightarrow> Inl TypeError)"

definition last_time :: "(json list \<Rightarrow> string) \<Rightarrow> json \<Rightarrow> exn + string" where
  "last_time rp snaps =
     (if \<not> truthy snaps then Inr [] else case snaps of
        JArr xs \<Rightarrow> (case last xs of
            JObj kvs \<Rightarrow> slice_time rp (case map_of (rev kvs) ''time'' of None \<Rightarrow> JStr [] | Some v \<Rightarrow> v)
          | _ \<Rightarrow> Inl AttributeError)
      | JObj _ \<Rightarrow> Inl (KeyError ''-1'')
      | JStr _ \<Rightarrow> Inl AttributeError
      | _ \<Rightarrow> Inl TypeError)"

definition status_repo ::
  "'w console \<Rightarrow> 'w os \<Rightarrow> (json list \<Rightarrow> string) \<Rightarrow> config \<Rightarrow> environ \<Rightarrow> bool \<Rightarrow> string \<Rightarrow> ('w, unit) py" where
  "status_repo CN OS rp cfg env verbose repo_id =
     (if verbose then
        bind_py (lift_sum (repo_url cfg repo_id)) (\<lambda>url.
        bind_py (lift_sum (restic_bin cfg)) (\<lambda>restic.
        bind_py (os_run OS restic [''snapshots'', ''--latest=1'', ''--compact'', ''-r'', url, ''--json''] env None)
        (\<lambda>(rc, out, err).
        bind_py (lift_sum (decode_utf8 out)) (\<lambda>out.
        bind_py (lift_sum (decode_utf8 err)) (\<lambda>_.
        bind_py (lift_sum (if rc = 0 then bind_sum (json_decode (universal_newlines out)) (last_time rp) else Inr [])) (\<lambda>last.
        cn_print CN (''  '' @ repo_id @ ''  (last: '' @ last @ '')'')))))))
      else cn_print CN (''  '' @ repo_id))"

definition print_events :: "'w console \<Rightarrow> 'w redis_client \<Rightarrow> bool \<Rightarrow> int \<Rightarrow> ('w, unit) py" where
  "print_events CN R verbose pending =
     (if verbose \<and> pending > 0 then
        bind_py (rd_hgetall R ''pending'') (\<lambda>all_items.
        for_py (sort_key fst (by_event all_items)) (\<lambda>(ev, count). cn_print CN (''  '' @ ev @ '': '' @ show_int count)))
      else return_py ())"

definition cmd_status ::
  "'w console \<Rightarrow> 'w redis_client \<Rightarrow> 'w minio_client \<Rightarrow> 'w os \<Rightarrow> (json list \<Rightarrow> string) \<Rightarrow> string \<Rightarrow> bool \<Rightarrow> ('w, unit) py" where
  "cmd_status CN R M OS rp conf verbose =
     bind_py (load_config CN conf) (\<lambda>cfg.
     bind_py (os_environ OS) (\<lambda>environ.
     bind_py (lift_sum (restic_env cfg environ)) (\<lambda>env.
     bind_py (lift_sum (cfg_item cfg ''db'' ''redis_url'')) (\<lambda>url.
     seq_py (rd_from_url R url)
     (bind_py (rd_hlen R ''pending'') (\<lambda>pending.
      seq_py (cn_print CN (''Pending events: '' @ show_int pending))
      (seq_py (print_events CN R verbose pending)
        (bind_py (list_repos M cfg env) (\<lambda>repos.
         seq_py (cn_print CN (''Repos: '' @ show_int (int (length repos))))
           (for_py repos (status_repo CN OS rp cfg env verbose)))))))))))"

subsection \<open>snapshots and restore\<close>

definition choose_repo ::
  "'w console \<Rightarrow> string option \<Rightarrow> string option \<Rightarrow> cfgval \<Rightarrow> cfgval \<Rightarrow> ('w, string) py" where
  "choose_repo CN path repo base depth =
     (if given path then
        bind_py (lift_sum (cli_repo_id_of (the path) base depth)) (\<lambda>rid.
        if \<not> given rid then
          seq_py (cn_error CN (''Error: cannot determine repo from path: '' @ the path)) (raise_py (SystemExit 1))
        else return_py (the rid))
      else if given repo then return_py (the repo)
      else seq_py (cn_error CN ''Error: --path or --repo required'') (raise_py (SystemExit 1)))"

definition cmd_snapshots ::
  "'w console \<Rightarrow> 'w os \<Rightarrow> string \<Rightarrow> string option \<Rightarrow> string option \<Rightarrow> bool \<Rightarrow> ('w, unit) py" where
  "cmd_snapshots CN OS conf path repo json_output =
     bind_py (load_config CN conf) (\<lambda>cfg.
     bind_py (os_environ OS) (\<lambda>environ.
     bind_py (lift_sum (restic_env cfg environ)) (\<lambda>env.
     bind_py (lift_sum (cfg_item cfg ''backup'' ''base_path'')) (\<lambda>base.
     bind_py (lift_sum (cfg_item cfg ''backup'' ''repo_depth'')) (\<lambda>depth.
     bind_py (choose_repo CN path repo base depth)
     (\<lambda>rid.
     bind_py (lift_sum (repo_url cfg rid)) (\<lambda>url.
     bind_py (lift_sum (restic_bin cfg)) (\<lambda>restic.
     bind_py (os_run OS restic ([''snapshots'', ''-r'', url] @ (if json_output then [''--json''] else [])) env None)
       (\<lambda>_. return_py ())))))))))"

text \<open>The messages, the restic process and its exit status.\<close>

definition run_restore ::
  "'w console \<Rightarrow> 'w os \<Rightarrow> cfgval \<Rightarrow> environ \<Rightarrow> string \<Rightarrow> string \<Rightarrow> string \<Rightarrow> string \<Rightarrow> string \<Rightarrow> ('w, unit) py" where
  "run_restore CN OS restic env rid url path snapshot target =
     seq_py (cn_print CN (''Repo: '' @ rid))
     (seq_py (cn_print CN (''Restoring to: '' @ target))
     (seq_py (cn_flush CN)
     (bind_py (os_run OS restic [''restore'', snapshot, ''--target'', target, ''--include'', path, ''-r'', url] env None)
      (\<lambda>(rc, out, err). if rc = 0 then cn_print CN (''Done. Check: '' @ target @ path) else raise_py (SystemExit rc)))))"

definition cmd_restore ::
  "'w console \<Rightarrow> 'w os \<Rightarrow> string \<Rightarrow> string \<Rightarrow> string option \<Rightarrow> string option \<Rightarrow> ('w, unit) py" where
  "cmd_restore CN OS conf path snapshot target =
     bind_py (load_config CN conf) (\<lambda>cfg.
     bind_py (os_environ OS) (\<lambda>environ.
     bind_py (lift_sum (restic_env cfg environ)) (\<lambda>env.
     bind_py (lift_sum (cfg_item cfg ''backup'' ''base_path'')) (\<lambda>base.
     bind_py (lift_sum (cfg_item cfg ''backup'' ''repo_depth'')) (\<lambda>depth.
     bind_py (lift_sum (cli_repo_id_of path base depth)) (\<lambda>rid.
     if \<not> given rid then
       seq_py (cn_error CN (''Error: cannot determine repo from path: '' @ path)) (raise_py (SystemExit 1))
     else
       bind_py (lift_sum (repo_url cfg (the rid))) (\<lambda>url.
       bind_py (lift_sum (restic_bin cfg)) (\<lambda>restic.
       run_restore CN OS restic env (the rid) url path (or_default snapshot ''latest'')
         (or_default target ''/tmp/restore'')))))))))"

subsection \<open>main\<close>

definition cli_main ::
  "'w console \<Rightarrow> 'w redis_client \<Rightarrow> 'w minio_client \<Rightarrow> 'w os \<Rightarrow> (json list \<Rightarrow> string) \<Rightarrow> string \<Rightarrow> command \<Rightarrow> ('w, unit) py" where
  "cli_main CN R M OS rp conf cmd = (case cmd of
     Status verbose \<Rightarrow> cmd_status CN R M OS rp conf verbose
   | Snapshots path repo json_output \<Rightarrow> cmd_snapshots CN OS conf path repo json_output
   | Restore path snapshot target \<Rightarrow> cmd_restore CN OS conf path snapshot target)"

subsection \<open>The contract of the environment\<close>

definition printed :: "((string list \<Rightarrow> string list) \<Rightarrow> depot \<Rightarrow> depot) \<Rightarrow> string \<Rightarrow> depot \<Rightarrow> exn + unit \<Rightarrow> depot \<Rightarrow> bool" where
  "printed upd line v r v' \<longleftrightarrow> v' = (case r of Inr _ \<Rightarrow> upd (\<lambda>ls. ls @ [line]) v | Inl _ \<Rightarrow> v)"

text \<open>
  The repository of a path as the backup run determines it (\<open>repo_id_of\<close>, \<open>repo_url\<close>), and the restic
  invocation of a restore.
\<close>

definition repo_for :: "config \<Rightarrow> string \<Rightarrow> string \<Rightarrow> string \<Rightarrow> bool" where
  "repo_for cfg path rid url \<longleftrightarrow> (\<exists>base depth.
     cfg_item cfg ''backup'' ''base_path'' = Inr base \<and> cfg_item cfg ''backup'' ''repo_depth'' = Inr depth \<and>
     repo_id_of path base depth = Inr (Some rid) \<and> rid \<noteq> [] \<and> repo_url cfg rid = Inr url)"

definition restore_call :: "cfgval \<Rightarrow> environ \<Rightarrow> string \<Rightarrow> string \<Rightarrow> string \<Rightarrow> string \<Rightarrow> restic_call" where
  "restore_call restic env url path snapshot target =
     (restic, [''restore'', snapshot, ''--target'', target, ''--include'', path, ''-r'', url], env)"

text \<open>
  What a program did between two views: \<open>made v cs ns ls v'\<close> says that it made the restic calls \<open>cs\<close>,
  which ended with the exit codes \<open>ns\<close>, and printed the lines \<open>ls\<close>; \<open>restored v c e v'\<close>, for a program that raised
  \<open>e\<close>, that it made the one call \<open>c\<close>, and that \<open>e\<close> passes on its exit code if that is not 0.
\<close>

definition made :: "depot \<Rightarrow> restic_call list \<Rightarrow> int list \<Rightarrow> string list \<Rightarrow> depot \<Rightarrow> bool" where
  "made v cs ns ls v' \<longleftrightarrow> calls v' = calls v @ cs \<and> codes v' = codes v @ ns \<and> out_lines v' = out_lines v @ ls"

definition restored :: "depot \<Rightarrow> restic_call \<Rightarrow> exn \<Rightarrow> depot \<Rightarrow> bool" where
  "restored v c e v' \<longleftrightarrow> (\<exists>ns ls. made v [c] ns ls v' \<and>
     (ns = [] \<or> ns = [0] \<or> (\<exists>rc. ns = [rc] \<and> rc \<noteq> 0 \<and> e = SystemExit rc)))"

text \<open>The repository \<open>snapshots\<close> lists: that of the path, or else the one named.\<close>

definition asked_repo :: "config \<Rightarrow> string option \<Rightarrow> string option \<Rightarrow> string \<Rightarrow> bool" where
  "asked_repo cfg path repo url \<longleftrightarrow>
     (if given path then \<exists>rid. repo_for cfg (the path) rid url
      else given repo \<and> repo_url cfg (the repo) = Inr url)"

definition snapshots_call :: "cfgval \<Rightarrow> environ \<Rightarrow> string \<Rightarrow> bool \<Rightarrow> restic_call" where
  "snapshots_call restic env url json_output =
     (restic, [''snapshots'', ''-r'', url] @ (if json_output then [''--json''] else []), env)"

text \<open>The lines \<open>status\<close> prints: the events by kind, then one line per repository.\<close>

definition event_lines :: "(string \<times> string) list \<Rightarrow> string list" where
  "event_lines items = map (\<lambda>(ev, count). ''  '' @ ev @ '': '' @ show_int count) (sort_key fst (by_event items))"

definition pending_lines :: "bool \<Rightarrow> (string \<times> string) list \<Rightarrow> string list" where
  "pending_lines verbose items = (let n = length (remdups (map fst items)) in
     (''Pending events: '' @ show_int (int n)) # (if verbose \<and> n > 0 then event_lines items else []))"

definition repos_line :: "string list \<Rightarrow> string" where
  "repos_line repos = ''Repos: '' @ show_int (int (length repos))"

definition repo_line :: "bool \<Rightarrow> string \<Rightarrow> string \<Rightarrow> bool" where
  "repo_line verbose rid line \<longleftrightarrow>
     (if verbose then \<exists>t. line = ''  '' @ rid @ ''  (last: '' @ t @ '')'' else line = ''  '' @ rid)"

lemma cli_repo_id_of_eq: "cli_repo_id_of = repo_id_of"
  by (simp add: fun_eq_iff cli_repo_id_of_def repo_id_of_def cli_get_repo_id_eq split: cfgval.split)

lemma given_Some: "given x \<longleftrightarrow> (\<exists>s. x = Some s \<and> s \<noteq> [])"
  by (auto simp: given_def split: option.split)

locale cli_env = depot_env see others OS M
  for see :: "'w \<Rightarrow> depot" and others OS M +
  fixes CN :: "'w console" and R :: "'w redis_client" and conf :: string and cfg :: config
  assumes load: "atomic see others (\<lambda>v r v'. v' = v \<and> (case r of Inr c \<Rightarrow> c = cfg | Inl _ \<Rightarrow> True)) (cn_load CN conf)"
    and print_out: "atomic see others (printed out_lines_update line) (cn_print CN line)"
    and print_err: "atomic see others (printed err_lines_update line) (cn_error CN line)"
    and flush_see: "quiet see others (cn_flush CN)"
    and from_url_see: "quiet see others (rd_from_url R url)"
    and hlen: "atomic see others (read_eff (\<lambda>v n. n = int (length (remdups (map fst (queued v)))))) (rd_hlen R ''pending'')"
    and hgetall: "atomic see others (read_eff (\<lambda>v items. items = queued v)) (rd_hgetall R ''pending'')"
begin

lemma load_wp:
  assumes "others v (see w)"
    and "\<And>w'. others v (see w') \<Longrightarrow> Q cfg w'" and "\<And>e w'. others v (see w') \<Longrightarrow> E e w'"
  shows "wp d (load_config CN conf) Q E w"
  unfolding load_config_def
  by (rule atomic_wp [OF load]) (use assms(2,3) others_trans [OF assms(1)] in auto)

abbreviation did :: "depot \<Rightarrow> restic_call list \<Rightarrow> int list \<Rightarrow> string list \<Rightarrow> 'w \<Rightarrow> bool" where
  "did v cs ns ls w \<equiv> made v cs ns ls (see w)"

lemma did_others: "others v (see w) \<Longrightarrow> did v [] [] [] w"
  by (auto simp: made_def dest: others_frame)

lemma did_quiet:
  assumes "did v cs ns ls w" and "quiet see others m"
    and "\<And>x w'. did v cs ns ls w' \<Longrightarrow> Q x w'" and "\<And>e w'. did v cs ns ls w' \<Longrightarrow> E e w'"
  shows "wp d m Q E w"
  by (rule atomic_wp [OF assms(2)]) (use assms(1,3,4) in \<open>auto simp: made_def dest: others_frame\<close>)

lemma did_print:
  assumes "did v cs ns ls w"
    and "\<And>w'. did v cs ns (ls @ [line]) w' \<Longrightarrow> Q () w'" and "\<And>e w'. did v cs ns ls w' \<Longrightarrow> E e w'"
  shows "wp d (cn_print CN line) Q E w"
  by (rule atomic_wp [OF print_out]) (use assms in \<open>auto simp: made_def printed_def dest: others_frame\<close>)

lemma did_error:
  assumes "did v cs ns ls w"
    and "\<And>w'. did v cs ns ls w' \<Longrightarrow> Q () w'" and "\<And>e w'. did v cs ns ls w' \<Longrightarrow> E e w'"
  shows "wp d (cn_error CN line) Q E w"
  by (rule atomic_wp [OF print_err]) (use assms in \<open>auto simp: made_def printed_def dest: others_frame\<close>)

lemma did_run:
  assumes "did v cs ns ls w"
    and "\<And>rc out err w'. did v (cs @ [(restic, args, env)]) (ns @ [rc]) ls w' \<Longrightarrow> Q (rc, out, err) w'"
    and "\<And>e w'. did v (cs @ [(restic, args, env)]) ns ls w' \<Longrightarrow> E e w'"
  shows "wp d (os_run OS restic args env timeout) Q E w"
  by (rule wp_mono [OF run_wp]) (use assms in \<open>auto simp: made_def called_def\<close>)

lemma did_prepare:
  assumes "\<And>env w'. did (see w) [] [] [] w' \<Longrightarrow> wp d (f cfg env) Q E w'"
    and "\<And>e w'. did (see w) [] [] [] w' \<Longrightarrow> E e w'"
  shows "wp d (bind_py (load_config CN conf) (\<lambda>cfg. bind_py (os_environ OS) (\<lambda>environ.
     bind_py (lift_sum (restic_env cfg environ)) (f cfg)))) Q E w"
  unfolding wp_bind [of _ "load_config CN conf"] wp_bind [of _ "os_environ OS"]
  by (rule load_wp [OF others_refl], erule environ_wp, rule wp_lift_bindI) (auto intro: assms did_others)

lemma run_restore_wp:
  assumes d: "did v [] [] [] w"
  shows "wp d (run_restore CN OS restic env rid url path snapshot target)
     (\<lambda>_. did v [restore_call restic env url path snapshot target] [0]
        [''Repo: '' @ rid, ''Restoring to: '' @ target, ''Done. Check: '' @ target @ path])
     (\<lambda>e w'. (\<exists>ls. did v [] [] ls w') \<or> restored v (restore_call restic env url path snapshot target) e (see w')) w"
    (is "wp d _ ?Q ?E w")
proof -
  define msgs where "msgs = [''Repo: '' @ rid, ''Restoring to: '' @ target]"
  let ?c = "restore_call restic env url path snapshot target"
  have once: "?E e w'" if "did v ([] @ [?c]) ns ls w'" "ns = [] \<or> ns = [0] \<or> (\<exists>rc. ns = [rc] \<and> rc \<noteq> 0 \<and> e = SystemExit rc)"
    for e w' ns ls using that unfolding restored_def by auto
  have finish: "wp d (if rc = 0 then cn_print CN (''Done. Check: '' @ target @ path) else raise_py (SystemExit rc)) ?Q ?E w'"
    if ran: "did v ([] @ [?c]) ([] @ [rc]) msgs w'" for rc w'
  proof (cases "rc = 0")
    case True
    have "wp d (cn_print CN (''Done. Check: '' @ target @ path)) ?Q ?E w'"
      by (rule did_print [OF ran]) (simp add: True msgs_def, erule once, simp add: True)
    with True show ?thesis by (simp only: simp_thms if_True)
  qed (use once [OF ran] in \<open>simp only: wp_raise if_False append.simps\<close>, blast)
  have run: "wp d (bind_py (os_run OS restic [''restore'', snapshot, ''--target'', target, ''--include'', path, ''-r'', url] env None)
      (\<lambda>(rc, out, err). if rc = 0 then cn_print CN (''Done. Check: '' @ target @ path) else raise_py (SystemExit rc))) ?Q ?E w'"
    if "did v [] [] msgs w'" for w'
    unfolding wp_bind
    by (rule did_run [OF that], fold restore_call_def) (simp only: prod.case finish, erule once, simp)
  show ?thesis
    unfolding run_restore_def wp_seq
    by (rule did_print [OF d], erule did_print, erule did_quiet [OF _ flush_see], rule run) (auto simp: msgs_def)
qed

lemma cmd_restore_wp:
  "wp False (cmd_restore CN OS conf path snapshot target)
     (\<lambda>_ w'. \<exists>rid url restic env. repo_for cfg path rid url \<and> restic_bin cfg = Inr restic \<and>
        did (see w) [restore_call restic env url path (or_default snapshot ''latest'') (or_default target ''/tmp/restore'')] [0]
          [''Repo: '' @ rid, ''Restoring to: '' @ or_default target ''/tmp/restore'',
           ''Done. Check: '' @ or_default target ''/tmp/restore'' @ path] w')
     (\<lambda>e w'. (\<exists>ls. did (see w) [] [] ls w') \<or>
        (\<exists>rid url restic env. repo_for cfg path rid url \<and> restic_bin cfg = Inr restic \<and>
          restored (see w) (restore_call restic env url path (or_default snapshot ''latest'') (or_default target ''/tmp/restore'')) e (see w'))) w"
    (is "wp False _ ?Q ?E w")
proof -
  have none: "?E e w'" if "did (see w) [] [] [] w'" for e w'
    using that by blast
  have refuse: "wp False (seq_py (cn_error CN msg) (raise_py (SystemExit 1))) ?Q ?E w1" if "did (see w) [] [] [] w1" for msg w1
    unfolding wp_seq wp_raise by (rule did_error [OF that]) (erule none)+
  have go: "wp False (bind_py (lift_sum (repo_url cfg rid)) (\<lambda>url. bind_py (lift_sum (restic_bin cfg)) (\<lambda>restic.
      run_restore CN OS restic env rid url path (or_default snapshot ''latest'') (or_default target ''/tmp/restore'')))) ?Q ?E w1"
    if repo: "\<And>url. repo_url cfg rid = Inr url \<Longrightarrow> repo_for cfg path rid url" and d: "did (see w) [] [] [] w1" for rid env w1
    by (intro wp_lift_bindI none [OF d] wp_mono [OF run_restore_wp [OF d]]) (use repo in blast)+
  show ?thesis
    unfolding cmd_restore_def
  proof (rule did_prepare; (intro wp_lift_bindI)?)
    fix env w1 base depth rid
    assume d: "did (see w) [] [] [] w1" and cfg: "cfg_item cfg ''backup'' ''base_path'' = Inr base"
      "cfg_item cfg ''backup'' ''repo_depth'' = Inr depth" "cli_repo_id_of path base depth = Inr rid"
    have "repo_for cfg path (the rid) url" if "given rid" "repo_url cfg (the rid) = Inr url" for url
      using cfg that by (auto simp: repo_for_def given_Some cli_repo_id_of_eq)
    then show "wp False (if \<not> given rid then seq_py (cn_error CN (''Error: cannot determine repo from path: '' @ path)) (raise_py (SystemExit 1))
      else bind_py (lift_sum (repo_url cfg (the rid))) (\<lambda>url. bind_py (lift_sum (restic_bin cfg)) (\<lambda>restic.
        run_restore CN OS restic env (the rid) url path (or_default snapshot ''latest'') (or_default target ''/tmp/restore''))))
      ?Q ?E w1"
      unfolding wp_if using refuse [OF d] go [OF _ d] by presburger
  qed (erule none)+
qed

lemma did_refuse:
  assumes "did v [] [] [] w" and "\<And>w'. did v [] [] [] w' \<Longrightarrow> E (SystemExit 1) w'" and "\<And>e w'. did v [] [] [] w' \<Longrightarrow> E e w'"
  shows "wp d (seq_py (cn_error CN msg) (raise_py (SystemExit 1))) Q E w"
  unfolding wp_seq wp_raise by (rule did_error [OF assms(1)]) (fact assms)+

lemma choose_repo_wp:
  assumes d: "did v [] [] [] w" and cfg: "cfg_item cfg ''backup'' ''base_path'' = Inr base"
    "cfg_item cfg ''backup'' ''repo_depth'' = Inr depth"
  shows "wp False (choose_repo CN path repo base depth)
    (\<lambda>rid w'. did v [] [] [] w' \<and> (\<forall>url. repo_url cfg rid = Inr url \<longrightarrow> asked_repo cfg path repo url))
    (\<lambda>_ w'. did v [] [] [] w') w"
proof (cases "given path")
  case True
  have "wp False (if \<not> given rid then seq_py (cn_error CN msg) (raise_py (SystemExit 1)) else return_py (the rid))
      (\<lambda>rid w'. did v [] [] [] w' \<and> (\<forall>url. repo_url cfg rid = Inr url \<longrightarrow> asked_repo cfg path repo url))
      (\<lambda>_ w'. did v [] [] [] w') w" if "cli_repo_id_of (the path) base depth = Inr rid" for rid msg
    using that d True cfg
    by (cases "given rid") (auto simp: wp_return asked_repo_def repo_for_def cli_repo_id_of_eq given_Some intro: did_refuse)
  then show ?thesis
    unfolding choose_repo_def if_P [OF True] by (intro wp_lift_bindI d)
next
  case False
  with d show ?thesis
    by (cases "given repo") (auto simp: choose_repo_def wp_return asked_repo_def intro: did_refuse)
qed

lemma cmd_snapshots_wp:
  "wp False (cmd_snapshots CN OS conf path repo json_output)
     (\<lambda>_ w'. \<exists>url restic env rc. asked_repo cfg path repo url \<and> restic_bin cfg = Inr restic \<and>
        did (see w) [snapshots_call restic env url json_output] [rc] [] w')
     (\<lambda>e w'. did (see w) [] [] [] w' \<or>
        (\<exists>url restic env. asked_repo cfg path repo url \<and> restic_bin cfg = Inr restic \<and>
          did (see w) [snapshots_call restic env url json_output] [] [] w')) w"
    (is "wp False _ ?Q ?E w")
proof -
  have none: "?E e w'" if "did (see w) [] [] [] w'" for e w' using that by blast
  have go: "wp False (bind_py (lift_sum (repo_url cfg rid)) (\<lambda>url. bind_py (lift_sum (restic_bin cfg)) (\<lambda>restic.
      bind_py (os_run OS restic ([''snapshots'', ''-r'', url] @ (if json_output then [''--json''] else [])) env None)
        (\<lambda>_. return_py ())))) ?Q ?E w1"
    if repo: "\<And>url. repo_url cfg rid = Inr url \<Longrightarrow> asked_repo cfg path repo url" and d: "did (see w) [] [] [] w1" for rid env w1
  proof (intro wp_lift_bindI none [OF d], unfold wp_bind wp_return)
    fix url restic
    assume "repo_url cfg rid = Inr url" and restic: "restic_bin cfg = Inr restic"
    then have asked: "asked_repo cfg path repo url" by (intro repo)
    show "wp False (os_run OS restic ([''snapshots'', ''-r'', url] @ (if json_output then [''--json''] else [])) env None)
        (\<lambda>_. ?Q ()) ?E w1"
      by (rule did_run [OF d], fold snapshots_call_def, unfold append_Nil) (use asked restic in blast)+
  qed
  show ?thesis
    unfolding cmd_snapshots_def
  proof (rule did_prepare; (intro wp_lift_bindI)?)
    fix env w1 base depth
    assume d: "did (see w) [] [] [] w1" and cfg: "cfg_item cfg ''backup'' ''base_path'' = Inr base"
      "cfg_item cfg ''backup'' ''repo_depth'' = Inr depth"
    note choose_repo_wp [OF d cfg, where path = path and repo = repo]
    then have "wp False (choose_repo CN path repo base depth)
      (\<lambda>rid w2. did (see w) [] [] [] w2 \<and> (\<forall>url. repo_url cfg rid = Inr url \<longrightarrow> asked_repo cfg path repo url)) ?E w1"
      by (rule wp_mono) (auto intro: none)
    then show "wp False (bind_py (choose_repo CN path repo base depth) (\<lambda>rid. bind_py (lift_sum (repo_url cfg rid)) (\<lambda>url.
       bind_py (lift_sum (restic_bin cfg)) (\<lambda>restic.
       bind_py (os_run OS restic ([''snapshots'', ''-r'', url] @ (if json_output then [''--json''] else [])) env None)
         (\<lambda>_. return_py ()))))) ?Q ?E w1"
      by (rule wp_bindI) (use go in blast)
  qed (erule none)+
qed

text \<open>The status command: the lines before the list of repositories.\<close>

abbreviation said :: "depot \<Rightarrow> string list \<Rightarrow> 'w \<Rightarrow> bool" where
  "said v ls w \<equiv> see w = v\<lparr>out_lines := out_lines v @ ls\<rparr>"

lemma said_print:
  assumes "others = (=)" and "said v ls w" and "\<And>w'. said v (ls @ [line]) w' \<Longrightarrow> Q () w'"
    and "\<And>e w'. said v ls w' \<Longrightarrow> E e w'"
  shows "wp d (cn_print CN line) Q E w"
  by (rule atomic_wp [OF print_out]) (use assms in \<open>auto simp: printed_def\<close>)

lemma said_lines:
  assumes "others = (=)" and "said v ls w" and "\<And>e w' ls. said v ls w' \<Longrightarrow> E e w'"
  shows "wp d (for_py xs (\<lambda>x. cn_print CN (f x))) (\<lambda>_. said v (ls @ map f xs)) E w"
proof -
  define I where "I = (\<lambda>todo w'. \<exists>ys. xs = ys @ todo \<and> said v (ls @ map f ys) w')"
  have "wp d (for_py xs (\<lambda>x. cn_print CN (f x))) (\<lambda>_. I []) E w"
  proof (rule wp_for)
    fix x todo w1
    assume "I (x # todo) w1"
    then obtain ys where "xs = ys @ x # todo" "said v (ls @ map f ys) w1" by (auto simp: I_def)
    then show "wp d (cn_print CN (f x)) (\<lambda>_. I todo) E w1"
      by (intro said_print [OF assms(1)]) (auto simp: I_def assms(3))
  qed (use assms(2) in \<open>simp add: I_def\<close>)
  then show ?thesis by (rule wp_mono) (auto simp: I_def)
qed

lemma status_repo_wp:
  assumes d: "did v cs ns ls w"
  shows "wp d (status_repo CN OS rp cfg env verbose rid)
    (\<lambda>_ w'. \<exists>line cs' ns'. did v (cs @ cs') (ns @ ns') (ls @ [line]) w' \<and> repo_line verbose rid line \<and> length cs' = of_bool verbose)
    (\<lambda>_ _. True) w"
proof (cases verbose)
  case True
  have final: "wp d (cn_print CN (''  '' @ rid @ ''  (last: '' @ t @ '')''))
      (\<lambda>_ w'. \<exists>line cs' ns'. did v (cs @ cs') (ns @ ns') (ls @ [line]) w' \<and> repo_line verbose rid line \<and> length cs' = of_bool verbose)
      (\<lambda>_ _. True) w'" if "did v (cs @ [c]) (ns @ [n]) ls w'" for c n t w'
  proof (rule did_print [OF that])
    fix w2
    have "repo_line verbose rid (''  '' @ rid @ ''  (last: '' @ t @ '')'')"
      unfolding repo_line_def if_P [OF True] by (rule exI, rule refl)
    moreover assume "did v (cs @ [c]) (ns @ [n]) (ls @ [''  '' @ rid @ ''  (last: '' @ t @ '')'']) w2"
    moreover have "length [c] = of_bool verbose" using True by simp
    ultimately show "\<exists>line cs' ns'. did v (cs @ cs') (ns @ ns') (ls @ [line]) w2 \<and> repo_line verbose rid line \<and> length cs' = of_bool verbose"
      by blast
  qed simp
  show ?thesis
    unfolding status_repo_def if_P [OF True]
    by (intro wp_lift_bindI) (simp_all only: wp_bind [of _ "os_run OS r a e t" for r a e t],
      rule did_run [OF d], simp_all only: prod.case, intro wp_lift_bindI final TrueI, assumption)
next
  case False
  then show ?thesis
    unfolding status_repo_def by (auto simp: repo_line_def intro!: did_print [OF d] exI [of _ "[]"])
qed

lemma status_repos_wp:
  assumes "did v [] [] ls w"
  shows "wp d (for_py repos (status_repo CN OS rp cfg env verbose))
    (\<lambda>_ w'. \<exists>lines cs ns. did v cs ns (ls @ lines) w' \<and> list_all2 (repo_line verbose) repos lines \<and>
       length cs = (if verbose then length repos else 0)) (\<lambda>_ _. True) w"
proof -
  define I where "I = (\<lambda>todo w'. \<exists>seen lines cs ns. repos = seen @ todo \<and> did v cs ns (ls @ lines) w' \<and>
    list_all2 (repo_line verbose) seen lines \<and> length cs = (if verbose then length seen else 0))"
  have "wp d (for_py repos (status_repo CN OS rp cfg env verbose)) (\<lambda>_. I []) (\<lambda>_ _. True) w"
  proof (rule wp_for)
    fix rid todo w1
    assume "I (rid # todo) w1"
    then obtain seen lines cs ns where I: "repos = seen @ rid # todo" "did v cs ns (ls @ lines) w1"
      "list_all2 (repo_line verbose) seen lines" "length cs = (if verbose then length seen else 0)"
      unfolding I_def by blast
    have step: "I todo w2" if "did v (cs @ cs') (ns @ ns') ((ls @ lines) @ [line]) w2" "repo_line verbose rid line"
      "length cs' = of_bool verbose" for w2 cs' ns' line
      unfolding I_def using I that
      by (intro exI [of _ "seen @ [rid]"] exI [of _ "lines @ [line]"] exI [of _ "cs @ cs'"] exI [of _ "ns @ ns'"])
        (auto intro: list_all2_appendI)
    show "wp d (status_repo CN OS rp cfg env verbose rid) (\<lambda>_. I todo) (\<lambda>_ _. True) w1"
      by (rule wp_mono [OF status_repo_wp [OF I(2)]]) (use step in blast)+
  qed (use assms in \<open>auto simp: I_def intro!: exI [of _ "[]"]\<close>)
  then show ?thesis by (rule wp_mono) (auto simp: I_def)
qed

lemma said_quiet:
  assumes "others = (=)" and "quiet see others m" and "said v ls w" and "\<And>x w'. said v ls w' \<Longrightarrow> Q x w'" and "\<And>e w'. E e w'"
  shows "wp d m Q E w"
  by (rule atomic_wp [OF assms(2)]) (use assms in auto)

lemma said_read:
  assumes "others = (=)" and "atomic see others eff m" and "said v ls w"
    and "\<And>x v'. eff (v\<lparr>out_lines := out_lines v @ ls\<rparr>) (Inr x) v' \<Longrightarrow> v' = v\<lparr>out_lines := out_lines v @ ls\<rparr> \<and> P x"
    and "\<And>x w'. P x \<Longrightarrow> said v ls w' \<Longrightarrow> Q x w'" and "\<And>e w'. E e w'"
  shows "wp d m Q E w"
proof (rule atomic_wp [OF assms(2)])
  fix u w' x
  assume "others (see w) u" and "eff u (Inr x) (see w')"
  then have "eff (v\<lparr>out_lines := out_lines v @ ls\<rparr>) (Inr x) (see w')" using assms(1,3) by simp
  from assms(4) [OF this] show "Q x w'" by (blast intro: assms(5))
qed (rule assms(6))

lemma said_list_repos:
  assumes alone: "others = (=)" and "said v ls w"
  shows "wp d (list_repos M cfg env) (\<lambda>repos w'. repos = discover_repos (stored v) \<and> said v ls w') (\<lambda>_ _. True) w"
  unfolding list_repos_def
proof (intro wp_lift_bindI TrueI, unfold wp_seq wp_bind wp_return, rule said_quiet [OF alone connect_quiet assms(2)])
  fix w' bucket
  assume said: "said v ls w'"
  show "wp d (mn_list_objects M bucket)
      (\<lambda>objs w'. discover_repos objs = discover_repos (stored v) \<and> said v ls w') (\<lambda>_ _. True) w'"
    by (rule said_read [OF alone listing said, where P = "\<lambda>objs. objs = stored v"]) (auto simp: listing_eff_def)
qed simp

lemma print_events_wp:
  assumes alone: "others = (=)" and w: "said v [first] w"
  shows "wp d (print_events CN R verbose n) (\<lambda>_. said v (first # (if verbose \<and> n > 0 then event_lines (queued v) else [])))
    (\<lambda>_ _. True) w"
proof (cases "verbose \<and> n > 0")
  case True
  have lines: "wp d (for_py (sort_key fst (by_event (queued v))) (\<lambda>(ev, count). cn_print CN (''  '' @ ev @ '': '' @ show_int count)))
      (\<lambda>_. said v (first # event_lines (queued v))) (\<lambda>_ _. True) w'" if "said v [first] w'" for w'
    using said_lines [OF alone that, of "\<lambda>_ _. True" d "sort_key fst (by_event (queued v))"
        "\<lambda>(ev, count). ''  '' @ ev @ '': '' @ show_int count"]
    by (simp add: case_prod_unfold event_lines_def)
  show ?thesis
    unfolding print_events_def if_P [OF True] wp_bind
    by (rule said_read [OF alone hgetall w, where P = "\<lambda>items. items = queued v"], simp add: read_eff_def,
        hypsubst, erule lines, rule TrueI)
next
  case False
  then show ?thesis
    unfolding print_events_def if_not_P [OF False] wp_return using w by simp
qed

text \<open>A status command that returns has told the number of events and of repositories, and named each.\<close>

lemma cmd_status_wp:
  assumes alone: "others = (=)"
  shows "wp False (cmd_status CN R M OS rp conf verbose)
    (\<lambda>_ w'. \<exists>lines cs ns. did (see w) cs ns
        (pending_lines verbose (queued (see w)) @ repos_line (discover_repos (stored (see w))) # lines) w' \<and>
      list_all2 (repo_line verbose) (discover_repos (stored (see w))) lines \<and>
      length cs = (if verbose then length (discover_repos (stored (see w))) else 0))
    (\<lambda>_ _. True) w"
    (is "wp False _ ?Q ?E w")
proof -
  define v where "v = see w"
  let ?repos = "discover_repos (stored v)"
  have repos: "wp False (for_py ?repos (status_repo CN OS rp cfg env verbose)) ?Q ?E w'"
    if "said v (pending_lines verbose (queued v) @ [repos_line ?repos]) w'" for env w'
  proof -
    have "did v [] [] (pending_lines verbose (queued v) @ [repos_line ?repos]) w'"
      using that by (simp add: made_def)
    from status_repos_wp [OF this] show ?thesis by (rule wp_mono) (simp only: v_def append_assoc append.simps, rule TrueI)
  qed
  have listed: "wp False (bind_py (list_repos M cfg env) (\<lambda>repos. seq_py (cn_print CN (repos_line repos))
      (for_py repos (status_repo CN OS rp cfg env verbose)))) ?Q ?E w'"
    if "said v (pending_lines verbose (queued v)) w'" for env w'
    by (rule wp_bindI [OF said_list_repos [OF alone that]], elim conjE, simp only: wp_seq,
        rule said_print [OF alone], assumption, erule repos, rule TrueI)
  have counted: "wp False (bind_py (rd_hlen R ''pending'') (\<lambda>pending.
      seq_py (cn_print CN (''Pending events: '' @ show_int pending)) (seq_py (print_events CN R verbose pending)
      (bind_py (list_repos M cfg env) (\<lambda>repos. seq_py (cn_print CN (repos_line repos))
        (for_py repos (status_repo CN OS rp cfg env verbose))))))) ?Q ?E w'"
    if w': "said v [] w'" for env w'
  proof -
    define n where "n = length (remdups (map fst (queued v)))"
    define first where "first = ''Pending events: '' @ show_int (int n)"
    have kinds: "wp False (seq_py (print_events CN R verbose (int n))
        (bind_py (list_repos M cfg env) (\<lambda>repos. seq_py (cn_print CN (repos_line repos))
          (for_py repos (status_repo CN OS rp cfg env verbose))))) ?Q ?E w''" if "said v [first] w''" for w''
      by (rule wp_seqI [OF print_events_wp [OF alone that]], rule listed)
        (simp add: pending_lines_def Let_def n_def first_def)
    show ?thesis
      unfolding wp_bind [of _ "rd_hlen R ''pending''"] wp_seq [of _ "cn_print CN s" for s]
      by (rule said_read [OF alone hlen w', where P = "\<lambda>x. x = int n"], simp add: read_eff_def n_def,
          hypsubst, fold first_def, rule said_print [OF alone], assumption, rule kinds, simp only: append_Nil) (rule TrueI)+
  qed
  have start: "said v [] w'" if "others (see w) (see w')" for w'
    using that by (simp add: alone v_def)
  show ?thesis
    unfolding cmd_status_def wp_bind [of _ "load_config CN conf"] wp_bind [of _ "os_environ OS"] repos_line_def [symmetric]
    by (rule load_wp [OF others_refl], erule environ_wp, intro wp_lift_bindI TrueI, unfold wp_seq [of _ "rd_from_url R url" for url],
        erule quiet_wp [OF _ from_url_see], rule counted, erule start) (rule TrueI)+
qed

end

subsection \<open>Events by kind\<close>

lemma count_event_keys: "set (map fst (count_event ev d)) = insert ev (set (map fst d))"
  by (induction ev d rule: count_event.induct) auto

lemma count_event_distinct: "distinct (map fst d) \<Longrightarrow> distinct (map fst (count_event ev d))"
  by (induction ev d rule: count_event.induct) (use count_event_keys in \<open>fastforce+\<close>)

lemma count_event_lookup: "map_of (count_event ev d) k =
    (if k = ev then Some (case map_of d ev of None \<Rightarrow> 1 | Some n \<Rightarrow> n + 1) else map_of d k)"
  by (induction ev d rule: count_event.induct) auto

lemma count_event_sum: "sum_list (map snd (count_event ev d)) = sum_list (map snd d) + 1"
  by (induction ev d rule: count_event.induct) auto

lemma by_event_snoc: "by_event (items @ [(p, ev)]) = count_event ev (by_event items)"
  by (simp add: by_event_def)

text \<open>
  The events by kind are exact: a kind is listed, once, if it occurs, with the number of its
  occurrences, and the numbers add up to the number of events.
\<close>

lemma by_event_facts:
  "distinct (map fst (by_event items)) \<and> sum_list (map snd (by_event items)) = int (length items) \<and>
   map_of (by_event items) ev = (let n = count_list (map snd items) ev in if n = 0 then None else Some (int n))"
proof (induction items rule: rev_induct)
  case Nil
  show ?case by (simp add: by_event_def)
next
  case (snoc item items)
  then show ?case
    by (cases item) (auto simp: by_event_snoc count_event_distinct count_event_sum count_event_lookup Let_def)
qed

subsection \<open>The desk's console\<close>

definition desk_say :: "((string list \<Rightarrow> string list) \<Rightarrow> depot \<Rightarrow> depot) \<Rightarrow> string \<Rightarrow> (desk, unit) py" where
  "desk_say upd line = modify_py (\<lambda>w. w\<lparr>dk_depot := upd (\<lambda>ls. ls @ [line]) (dk_depot w)\<rparr>)"

definition desk_console :: "config \<Rightarrow> desk console" where
  "desk_console cfg = \<lparr>
     cn_load = (\<lambda>conf. return_py cfg),
     cn_print = desk_say out_lines_update,
     cn_error = desk_say err_lines_update,
     cn_flush = return_py ()\<rparr>"

interpretation desk: cli_env desk_see "(=)" desk_os desk_minio "desk_console cfg" "mem_redis fr" conf cfg
proof
  show "atomic desk_see (=) (\<lambda>v r v'. v' = v \<and> (case r of Inr c \<Rightarrow> c = cfg | Inl _ \<Rightarrow> True)) (cn_load (desk_console cfg) conf)"
    by (simp add: desk_console_def atomic_def return_py_def)
  show "atomic desk_see (=) (printed out_lines_update line) (cn_print (desk_console cfg) line)"
    "atomic desk_see (=) (printed err_lines_update line) (cn_error (desk_console cfg) line)" for line
    by (simp_all add: desk_console_def desk_say_def atomic_def modify_py_def printed_def desk_see_def)
  show "quiet desk_see (=) (cn_flush (desk_console cfg))" by (simp add: desk_console_def pure_quiet)
  show "atomic desk_see (=) (read_eff (\<lambda>v n. n = int (length (remdups (map fst (queued v)))))) (rd_hlen (mem_redis fr) ''pending'')"
    "atomic desk_see (=) (read_eff (\<lambda>v items. items = queued v)) (rd_hgetall (mem_redis fr) ''pending'')"
    by (auto simp: mem_redis_def atomic_def mem_call_def read_eff_def desk_see_def split: list.split)
qed (rule desk_redis_quiet)

subsection \<open>Properties\<close>

text \<open>
  C37: \<open>restore\<close> always ends. When it returns, restic was called exactly once, for the repository
  to which the backup run maps the path (and at the URL the backup writes to), with the path,
  the snapshot and the target asked for or their defaults; its exit code was 0 and the user was
  told where the files are. When it raises, restic was not called, or it was called that one
  time and a non-zero exit code is the program's own.
\<close>

theorem restore_uses_backup_repo:
  assumes env: "cli_env see others OS M CN R conf cfg"
  shows "\<exists>r w'. cmd_restore CN OS conf path snapshot target w = Some (r, w') \<and>
    (case r of
       Inr _ \<Rightarrow> (\<exists>rid url restic env. repo_for cfg path rid url \<and> restic_bin cfg = Inr restic \<and>
        made (see w) [restore_call restic env url path (or_default snapshot ''latest'') (or_default target ''/tmp/restore'')] [0]
          [''Repo: '' @ rid, ''Restoring to: '' @ or_default target ''/tmp/restore'',
           ''Done. Check: '' @ or_default target ''/tmp/restore'' @ path] (see w'))
     | Inl e \<Rightarrow> (\<exists>ls. made (see w) [] [] ls (see w')) \<or>
        (\<exists>rid url restic env. repo_for cfg path rid url \<and> restic_bin cfg = Inr restic \<and>
          restored (see w) (restore_call restic env url path (or_default snapshot ''latest'') (or_default target ''/tmp/restore'')) e (see w')))"
  by (rule wp_total_outcome [OF cli_env.cmd_restore_wp [OF env]])

definition ex_cli_cfg :: config where
  "ex_cli_cfg = [''db'' \<mapsto> [''redis_url'' \<mapsto> CStr ''redis://r''],
     ''backup'' \<mapsto> [''base_path'' \<mapsto> CStr ''/home'', ''repo_depth'' \<mapsto> CInt 2],
     ''minio'' \<mapsto> [''endpoint'' \<mapsto> CStr ''m:9000'', ''bucket'' \<mapsto> CStr ''b'']]"

lemma ex_repo_for: "repo_for ex_cli_cfg ''/home/s1/u/a'' rid url \<longleftrightarrow> rid = ''s1/u'' \<and> url = ''s3:http://m:9000/b/s1/u''"
proof -
  have "repo_id_of ''/home/s1/u/a'' (CStr ''/home'') (CInt 2) = Inr (Some ''s1/u'')"
    "repo_url ex_cli_cfg ''s1/u'' = Inr ''s3:http://m:9000/b/s1/u''" by code_simp+
  then show ?thesis by (auto simp: repo_for_def ex_cli_cfg_def cfg_item_def)
qed

theorem restore_uses_backup_repo_witness:
  "\<exists>w'. cmd_restore (desk_console ex_cli_cfg) desk_os ''c'' ''/home/s1/u/a'' None None (ex_desk []) = Some (Inr (), w') \<and>
     (\<exists>restic env. made (desk_see (ex_desk []))
        [restore_call restic env ''s3:http://m:9000/b/s1/u'' ''/home/s1/u/a'' ''latest'' ''/tmp/restore''] [0]
        [''Repo: s1/u'', ''Restoring to: /tmp/restore'', ''Done. Check: /tmp/restore/home/s1/u/a''] (desk_see w'))"
proof -
  have run: "map_option fst (cmd_restore (desk_console ex_cli_cfg) desk_os ''c'' ''/home/s1/u/a'' None None (ex_desk [])) = Some (Inr ())"
    by code_simp
  from outcome_returns [OF restore_uses_backup_repo [OF desk.cli_env_axioms] run] show ?thesis
    by (auto simp: ex_repo_for or_default_def given_def)
qed

text \<open>
  \<open>snapshots\<close> always ends and calls restic at most once, for the repository of the path as the
  backup maps it or, without a path, for the repository named. With neither, or with a path that
  belongs to no repository, it raises before any restic call; it prints nothing itself.
\<close>

theorem snapshots_asks_one_repo:
  assumes env: "cli_env see others OS M CN R conf cfg"
  shows "\<exists>r w'. cmd_snapshots CN OS conf path repo json_output w = Some (r, w') \<and>
    (case r of
       Inr _ \<Rightarrow> (\<exists>url restic env rc. asked_repo cfg path repo url \<and> restic_bin cfg = Inr restic \<and>
         made (see w) [snapshots_call restic env url json_output] [rc] [] (see w'))
     | Inl e \<Rightarrow> made (see w) [] [] [] (see w') \<or>
        (\<exists>url restic env. asked_repo cfg path repo url \<and> restic_bin cfg = Inr restic \<and>
          made (see w) [snapshots_call restic env url json_output] [] [] (see w')))"
  by (rule wp_total_outcome [OF cli_env.cmd_snapshots_wp [OF env]])

theorem snapshots_asks_one_repo_witness:
  "\<exists>w'. cmd_snapshots (desk_console ex_cli_cfg) desk_os ''c'' (Some ''/home/s1/u/a'') None True (ex_desk [(1, [], [])]) = Some (Inr (), w') \<and>
     (\<exists>restic env rc. made (desk_see (ex_desk [(1, [], [])]))
        [snapshots_call restic env ''s3:http://m:9000/b/s1/u'' True] [rc] [] (desk_see w'))"
proof -
  have run: "map_option fst (cmd_snapshots (desk_console ex_cli_cfg) desk_os ''c'' (Some ''/home/s1/u/a'') None True (ex_desk [(1, [], [])])) = Some (Inr ())"
    by code_simp
  from outcome_returns [OF snapshots_asks_one_repo [OF desk.cli_env_axioms] run] show ?thesis
    by (auto simp: asked_repo_def ex_repo_for given_def)
qed

text \<open>
  \<open>snapshots\<close> and \<open>restore\<close> refuse a path that belongs to no repository, and \<open>snapshots\<close> a call that
  names neither path nor repository: a message on standard error and exit status 1, before
  restic is called.
\<close>

theorem unmapped_path_exits_1:
  assumes load: "cn_load CN conf w = Some (Inr cfg, w1)" and environ: "os_environ OS w1 = Some (Inr environ, w2)"
    and env: "restic_env cfg environ = Inr env"
    and base: "cfg_item cfg ''backup'' ''base_path'' = Inr base" and depth: "cfg_item cfg ''backup'' ''repo_depth'' = Inr depth"
    and unmapped: "repo_id_of path base depth = Inr None" and path: "path \<noteq> []"
    and err: "\<forall>msg. cn_error CN msg w2 = Some (Inr (), fin msg)"
  shows "cmd_restore CN OS conf path snapshot target w =
      Some (Inl (SystemExit 1), fin (''Error: cannot determine repo from path: '' @ path)) \<and>
    cmd_snapshots CN OS conf (Some path) repo json_output w =
      Some (Inl (SystemExit 1), fin (''Error: cannot determine repo from path: '' @ path)) \<and>
    cmd_snapshots CN OS conf None None json_output w = Some (Inl (SystemExit 1), fin ''Error: --path or --repo required'')"
  using assms
  by (simp add: cmd_restore_def cmd_snapshots_def choose_repo_def load_config_def py_defs cli_repo_id_of_eq given_def)

theorem unmapped_path_exits_1_witness:
  "cmd_restore (desk_console ex_cli_cfg) desk_os ''c'' ''/srv/a'' None None (ex_desk []) =
     Some (Inl (SystemExit 1), (ex_desk [])\<lparr>dk_depot := (dk_depot (ex_desk []))\<lparr>err_lines := [''Error: cannot determine repo from path: /srv/a'']\<rparr>\<rparr>)"
proof -
  have "repo_id_of ''/srv/a'' (CStr ''/home'') (CInt 2) = Inr None" by code_simp
  then show ?thesis
    using unmapped_path_exits_1 [of "desk_console ex_cli_cfg" "''c''" "ex_desk []" ex_cli_cfg "ex_desk []" desk_os
        "dk_environ (ex_desk [])" "ex_desk []" "dk_environ (ex_desk [])" "CStr ''/home''" "CInt 2" "''/srv/a''"
        "\<lambda>msg. (ex_desk [])\<lparr>dk_depot := (dk_depot (ex_desk []))\<lparr>err_lines := [msg]\<rparr>\<rparr>" None None]
    by (simp add: desk_console_def desk_say_def desk_os_def py_defs ex_desk_def ex_cli_cfg_def cfg_item_def restic_env_def env_default_def)
qed

text \<open>
  C38: \<open>status\<close> always ends; when it returns, it has printed the number of queued events, with
  \<open>-v\<close> the events by kind, the number of repositories, and one line for each repository of the
  bucket in ascending order; restic was called once per repository with \<open>-v\<close> and not at all without. The
  count by kind lists each kind that occurs once, with the number of its occurrences.
\<close>

theorem status_reports_all:
  assumes env: "cli_env see (=) OS M CN R conf cfg"
  shows "distinct (map fst (by_event items)) \<and>
    map_of (by_event items) ev = (let n = count_list (map snd items) ev in if n = 0 then None else Some (int n)) \<and>
    (\<exists>r w'. cmd_status CN R M OS rp conf verbose w = Some (r, w') \<and>
    (case r of
       Inr _ \<Rightarrow> (\<exists>lines cs ns. made (see w) cs ns
            (pending_lines verbose (queued (see w)) @ repos_line (discover_repos (stored (see w))) # lines) (see w') \<and>
          list_all2 (repo_line verbose) (discover_repos (stored (see w))) lines \<and>
          length cs = (if verbose then length (discover_repos (stored (see w))) else 0))
     | Inl e \<Rightarrow> True))"
  using wp_total_outcome [OF cli_env.cmd_status_wp [OF env refl, of rp verbose w]] by_event_facts [of items ev]
  by (intro conjI) simp_all

theorem status_reports_all_witness:
  "\<exists>w'. cmd_status (desk_console ex_cli_cfg) (mem_redis id) desk_minio desk_os (\<lambda>_. []) ''c'' False (ex_desk []) = Some (Inr (), w') \<and>
     out_lines (desk_see w') = [''Pending events: 0'', ''Repos: 2'', ''  s1/u'', ''  s2/v'']"
proof -
  have run: "map_option fst (cmd_status (desk_console ex_cli_cfg) (mem_redis id) desk_minio desk_os (\<lambda>_. []) ''c'' False (ex_desk [])) = Some (Inr ())"
    by code_simp
  have repos: "discover_repos (stored (desk_see (ex_desk []))) = [''s1/u'', ''s2/v'']"
    "pending_lines False (queued (desk_see (ex_desk []))) = [''Pending events: 0'']"
    "repos_line [''s1/u'', ''s2/v''] = ''Repos: 2''" "out_lines (desk_see (ex_desk [])) = []" by code_simp+
  from outcome_returns [OF conjunct2 [OF conjunct2 [OF status_reports_all [OF desk.cli_env_axioms]]] run] show ?thesis
    unfolding repos by (auto simp: repos made_def repo_line_def list_all2_Cons1)
qed

end
