(* ===== verification/Agent.thy ===== *)
theory Agent
  imports EventProcessor
begin

text \<open>
  The messages of the agent (\<open>src/main.cpp\<close>): \<open>json_escape\<close>, \<open>build_json\<close> and the rename message, and
  the proof that the consumer reads back what the agent wrote. A \<open>std::string\<close> is its bytes.
\<close>

subsection \<open>json_escape\<close>

definition hex_char :: "nat \<Rightarrow> char" where
  "hex_char n = char_of (if n < 10 then 48 + n else 87 + n)"

text \<open>The length of the sequence a lead byte announces, 0 for a byte that is none.\<close>

definition seq_len :: "char \<Rightarrow> nat" where
  "seq_len c = (let x = ord_of c in
     if x div 32 = 6 then 2 else if x div 16 = 14 then 3 else if x div 8 = 30 then 4 else 0)"

definition valid_seq :: "string \<Rightarrow> bool" where
  "valid_seq s = (let n = seq_len (hd s) in
     2 \<le> n \<and> n \<le> length s \<and> list_all (\<lambda>b. ord_of b div 64 = 2) (take (n - 1) (tl s)))"

text \<open>What one byte below 0x80 is written as.\<close>

definition escape_ascii :: "char \<Rightarrow> string" where
  "escape_ascii c = (let x = ord_of c in
     if x = 34 then [backslash, dquote]
     else if x = 92 then [backslash, backslash]
     else if x = 8 then [backslash, CHR ''b'']
     else if x = 12 then [backslash, CHR ''f'']
     else if x = 10 then [backslash, CHR ''n'']
     else if x = 13 then [backslash, CHR ''r'']
     else if x = 9 then [backslash, CHR ''t'']
     else if x < 32 then [backslash, CHR ''u'', CHR ''0'', CHR ''0'', hex_char (x div 16), hex_char (x mod 16)]
     else [c])"

function json_escape :: "string \<Rightarrow> string" where
  "json_escape [] = []"
| "json_escape (c # s) =
     (if ord_of c < 0x80 then escape_ascii c @ json_escape s
      else if valid_seq (c # s)
      then take (seq_len c) (c # s) @ json_escape (drop (seq_len c) (c # s))
      else backslash # ''ufffd'' @ json_escape s)"
  by pat_completeness auto
termination
  by (relation "measure length") (auto simp: valid_seq_def Let_def)

subsection \<open>The messages\<close>

definition quoted :: "string \<Rightarrow> string" where
  "quoted s = dquote # s @ [dquote]"

definition build_json :: "int \<Rightarrow> string \<Rightarrow> string \<Rightarrow> string \<Rightarrow> string" where
  "build_json ts_ms event_type path hostname =
     ''{'' @ quoted ''ts'' @ '':'' @ show_int ts_ms @ '','' @ quoted ''event'' @ '':'' @ quoted event_type @
     '','' @ quoted ''path'' @ '':'' @ quoted (json_escape path) @
     '','' @ quoted ''hostname'' @ '':'' @ quoted (json_escape hostname) @ ''}''"

definition rename_json :: "int \<Rightarrow> string \<Rightarrow> string \<Rightarrow> string \<Rightarrow> string" where
  "rename_json ts_ms old_path new_path hostname =
     ''{'' @ quoted ''ts'' @ '':'' @ show_int ts_ms @ '','' @ quoted ''event'' @ '':'' @ quoted ''rename'' @
     '','' @ quoted ''old_path'' @ '':'' @ quoted (json_escape old_path) @
     '','' @ quoted ''new_path'' @ '':'' @ quoted (json_escape new_path) @
     '','' @ quoted ''hostname'' @ '':'' @ quoted (json_escape hostname) @ ''}''"

subsection \<open>UTF-8, character by character\<close>

text \<open>A multi-byte character of well-formed UTF-8.\<close>

definition wide_char :: "string \<Rightarrow> bool" where
  "wide_char ch \<longleftrightarrow> (\<exists>c r. ch = c # r \<and> 0x80 \<le> ord_of c \<and> seq_len c = length ch \<and> 2 \<le> length ch \<and> list_all cont_byte r)"

lemma cont_byte_div: "cont_byte b \<longleftrightarrow> ord_of b div 64 = 2"
  unfolding cont_byte_def by (auto simp: div_nat_eqI)

lemma seq_len_eqs:
  "0xC0 \<le> ord_of c \<Longrightarrow> ord_of c \<le> 0xDF \<Longrightarrow> seq_len c = 2"
  "0xE0 \<le> ord_of c \<Longrightarrow> ord_of c \<le> 0xEF \<Longrightarrow> seq_len c = 3"
  "0xF0 \<le> ord_of c \<Longrightarrow> ord_of c \<le> 0xF7 \<Longrightarrow> seq_len c = 4"
proof -
  show "seq_len c = 2" if "0xC0 \<le> ord_of c" "ord_of c \<le> 0xDF"
  proof -
    have "ord_of c div 32 = 6" using that by (auto simp: div_nat_eqI)
    then show ?thesis by (simp add: seq_len_def)
  qed
  show "seq_len c = 3" if "0xE0 \<le> ord_of c" "ord_of c \<le> 0xEF"
  proof -
    have "ord_of c div 32 \<noteq> 6" "ord_of c div 16 = 14" using that by (auto simp: div_nat_eqI)
    then show ?thesis by (simp add: seq_len_def)
  qed
  show "seq_len c = 4" if "0xF0 \<le> ord_of c" "ord_of c \<le> 0xF7"
  proof -
    have "ord_of c div 32 \<noteq> 6" "ord_of c div 16 \<noteq> 14" "ord_of c div 8 = 30" using that by (auto simp: div_nat_eqI)
    then show ?thesis by (simp add: seq_len_def)
  qed
qed

lemma utf8_ok_induct [consumes 1, case_names Nil ascii wide]:
  assumes "utf8_ok sp s" and "P []"
    and "\<And>c t. ord_of c < 0x80 \<Longrightarrow> utf8_ok sp t \<Longrightarrow> P t \<Longrightarrow> P (c # t)"
    and "\<And>ch t. wide_char ch \<Longrightarrow> utf8_ok sp ch \<Longrightarrow> utf8_ok sp t \<Longrightarrow> P t \<Longrightarrow> P (ch @ t)"
  shows "P s"
  using assms(1)
proof (induction s rule: length_induct)
  case (1 s)
  show ?case
  proof (cases s)
    case Nil
    with assms(2) show ?thesis by simp
  next
    case (Cons c r)
    let ?x = "ord_of c"
    have step: "P (ch @ t)" if "wide_char ch" "utf8_ok sp ch" "utf8_ok sp t" "s = ch @ t" for ch t
      using that 1 by (auto simp: wide_char_def intro: assms(4))
    show ?thesis
    proof (cases "?x < 0x80")
      case True
      with 1 Cons assms(3) show ?thesis by (auto simp: Let_def)
    next
      case False
      with 1(2) Cons consider b t where "0xC2 \<le> ?x" "?x \<le> 0xDF" "r = b # t"
        | b d t where "0xE0 \<le> ?x" "?x \<le> 0xEF" "r = b # d # t"
        | b d e t where "0xF0 \<le> ?x" "?x \<le> 0xF4" "r = b # d # e # t"
        by (fastforce simp: Let_def not_less split: if_splits list.splits)
      then show ?thesis
      proof cases
        case (1 b t)
        with \<open>utf8_ok sp s\<close> Cons step [of "[c, b]" t] show ?thesis
          by (auto simp: wide_char_def seq_len_eqs Let_def)
      next
        case (2 b d t)
        with \<open>utf8_ok sp s\<close> Cons step [of "[c, b, d]" t] show ?thesis
          by (auto simp: wide_char_def seq_len_eqs Let_def)
      next
        case (3 b d e t)
        with \<open>utf8_ok sp s\<close> Cons step [of "[c, b, d, e]" t] show ?thesis
          by (auto simp: wide_char_def seq_len_eqs Let_def)
      qed
    qed
  qed
qed

subsection \<open>The scanner undoes the escapes\<close>

lemma seq_len_ge: "seq_len c = n \<Longrightarrow> 2 \<le> n \<Longrightarrow> 0x80 \<le> ord_of c"
  by (auto simp: seq_len_def Let_def split: if_splits)

lemma json_escape_wide:
  assumes "wide_char ch"
  shows "json_escape (ch @ t) = ch @ json_escape t"
proof -
  from assms obtain c r where ch: "ch = c # r" "0x80 \<le> ord_of c" "seq_len c = Suc (length r)" "2 \<le> Suc (length r)" "list_all cont_byte r"
    by (auto simp: wide_char_def)
  then have "valid_seq (c # r @ t)"
    by (simp add: valid_seq_def Let_def cont_byte_div list_all_iff)
  with ch show ?thesis by simp
qed

lemma json_escape_ascii: "ord_of c < 0x80 \<Longrightarrow> json_escape (c # t) = escape_ascii c @ json_escape t"
  by simp

lemma scanstring_high: "list_all (\<lambda>b. 0x80 \<le> ord_of b) ch \<Longrightarrow> scanstring (ch @ t) = prepend ch (scanstring t)"
proof (induction ch)
  case (Cons b ch)
  then have "b \<noteq> dquote" "b \<noteq> backslash" by (auto simp: dquote_def backslash_def)
  with Cons show ?case by (cases "scanstring t") auto
qed (cases "scanstring t", auto)

lemma hex_control: "n < 32 \<Longrightarrow> hex4 (CHR ''0'') (CHR ''0'') (hex_char (n div 16)) (hex_char (n mod 16)) = Some n"
proof -
  have "list_all (\<lambda>n. hex4 (CHR ''0'') (CHR ''0'') (hex_char (n div 16)) (hex_char (n mod 16)) = Some n) [0..<32]"
    by code_simp
  then show "n < 32 \<Longrightarrow> ?thesis" by (simp add: list_all_iff)
qed

lemma char_eqI: "ord_of c = n \<Longrightarrow> c = char_of n"
  by (auto simp: char_of_char)

lemma ascii_chars:
  "char_of (34 :: nat) = CHR 0x22" "char_of (92 :: nat) = CHR 0x5C" "char_of (8 :: nat) = CHR 0x08"
  "char_of (12 :: nat) = CHR 0x0C" "char_of (10 :: nat) = CHR 0x0A" "char_of (13 :: nat) = CHR 0x0D"
  "char_of (9 :: nat) = CHR 0x09"
  by code_simp+

lemma scanstring_ascii:
  assumes "ord_of c < 0x80"
  shows "scanstring (escape_ascii c @ t) = prepend [c] (scanstring t)"
proof -
  consider "ord_of c \<in> {34, 92, 8, 12, 10, 13, 9}" | "ord_of c \<notin> {34, 92, 8, 12, 10, 13, 9}" "ord_of c < 32"
    | "ord_of c \<notin> {34, 92, 8, 12, 10, 13, 9}" "\<not> ord_of c < 32" by blast
  then show ?thesis
  proof cases
    case 1
    then show ?thesis
      by (auto simp: escape_ascii_def decode_escape_def simple_escape_def dquote_def backslash_def ascii_chars dest!: char_eqI)
  next
    case 2
    have "decode_escape (CHR ''u'' # CHR ''0'' # CHR ''0'' # hex_char (ord_of c div 16) # hex_char (ord_of c mod 16) # t) = Some ([c], t)"
      using 2 hex_control [of "ord_of c"]
      by (simp add: decode_escape_def take_hex4_def is_high_def encode_cp_def)
    with 2 show ?thesis by (simp add: escape_ascii_def Let_def dquote_def backslash_def)
  next
    case 3
    then have "c \<noteq> dquote" "c \<noteq> backslash" by (auto simp: dquote_def backslash_def)
    with 3 show ?thesis by (simp add: escape_ascii_def Let_def)
  qed
qed

lemma scanstring_escape:
  assumes "utf8_ok sp s"
  shows "scanstring (json_escape s @ dquote # rest) = Inr (s, rest)"
  using assms
proof (induction s rule: utf8_ok_induct)
  case (ascii c t)
  then show ?case by (simp add: json_escape_ascii scanstring_ascii del: json_escape.simps)
next
  case (wide ch t)
  have "list_all (\<lambda>b. 0x80 \<le> ord_of b) ch"
    using wide(1) by (auto simp: wide_char_def cont_byte_def list_all_iff)
  with wide show ?case by (simp add: json_escape_wide scanstring_high del: json_escape.simps)
qed simp

subsection \<open>Numbers\<close>

lemma is_digit_char: "d < 10 \<Longrightarrow> is_digit (digit_char d)" "d < 10 \<Longrightarrow> ord_of (digit_char d) = 48 + d"
  by (simp_all add: is_digit_def digit_char_def)

lemma show_nat_digits: "list_all is_digit (show_nat n) \<and> show_nat n \<noteq> []"
proof (induction n rule: show_nat.induct)
  case (1 n)
  then show ?case by (subst (1 2) show_nat.simps) (auto simp: is_digit_char)
qed

lemma int_of_digits_snoc: "int_of_digits (ds @ [d]) = int_of_digits ds * 10 + int (ord_of d - 48)"
  by (simp add: int_of_digits_def)

lemma int_of_show_nat: "int_of_digits (show_nat n) = int n"
proof (induction n rule: show_nat.induct)
  case (1 n)
  show ?case
  proof (cases "n < 10")
    case True
    then show ?thesis by (subst show_nat.simps) (simp add: int_of_digits_def is_digit_char)
  next
    case False
    with 1 have "int_of_digits (show_nat n) = int (n div 10) * 10 + int (n mod 10)"
      by (subst show_nat.simps) (simp add: int_of_digits_snoc is_digit_char)
    also have "\<dots> = int (n div 10 * 10 + n mod 10)" by (simp only: of_nat_add of_nat_mult of_nat_numeral)
    finally show ?thesis by (simp only: div_mult_mod_eq)
  qed
qed

lemma length_show_nat: "n < 10 ^ Suc k \<Longrightarrow> length (show_nat n) \<le> Suc k"
proof (induction k arbitrary: n)
  case 0
  then show ?case by (subst show_nat.simps) simp
next
  case (Suc k)
  then have "n div 10 < 10 ^ Suc k" by (simp add: less_mult_imp_div_less mult.commute)
  from Suc.IH [OF this] show ?case by (subst show_nat.simps) simp
qed

lemma hd_show_nat: "0 < n \<Longrightarrow> hd (show_nat n) \<noteq> CHR ''0''"
proof (induction n rule: show_nat.induct)
  case (1 n)
  show ?case
  proof (cases "n < 10")
    case True
    with 1 have "ord_of (digit_char n) \<noteq> ord_of (CHR ''0'')" by (simp add: is_digit_char)
    with True show ?thesis by (subst show_nat.simps) auto
  next
    case False
    with 1 show_nat_digits [of "n div 10"] show ?thesis by (subst show_nat.simps) auto
  qed
qed

lemma int_part_show_nat:
  assumes "\<not> is_digit e"
  shows "int_part (show_nat n @ e # r) = show_nat n"
proof (cases "n = 0")
  case True
  have "show_nat 0 = ''0''" by code_simp
  with True show ?thesis by (simp add: int_part_def)
next
  case False
  obtain d ds where ds: "show_nat n = d # ds" using show_nat_digits [of n] by (cases "show_nat n") auto
  have "takeWhile is_digit (show_nat n @ e # r) = show_nat n"
    using show_nat_digits [of n] assms by (simp add: takeWhile_append list_all_iff)
  with ds hd_show_nat [of n] False show ?thesis by (simp add: int_part_def)
qed

definition ends_value :: "char \<Rightarrow> bool" where
  "ends_value e \<longleftrightarrow> e = CHR '','' \<or> e = CHR ''}''"

lemma match_show_int:
  assumes "ends_value e" and "length (show_nat (nat \<bar>i\<bar>)) \<le> 4300"
  shows "match_number (show_int i @ e # r) = Inr (JInt i, e # r)"
proof -
  define ds where "ds = show_nat (nat \<bar>i\<bar>)"
  have e: "\<not> is_digit e" "frac_part (e # r) = []" "exp_part (e # r) = []"
    using assms(1) by (auto simp: ends_value_def is_digit_def frac_part_def exp_part_def split: list.split)
  have ds: "ds \<noteq> []" "length ds \<le> 4300" "int_of_digits ds = \<bar>i\<bar>" "int_part (ds @ e # r) = ds"
    using show_nat_digits [of "nat \<bar>i\<bar>"] assms(2) int_of_show_nat [of "nat \<bar>i\<bar>"] int_part_show_nat [OF e(1)]
    by (simp_all add: ds_def)
  have no_sign: "sign_part (ds @ e # r) = []"
    using show_nat_digits [of "nat \<bar>i\<bar>"] by (cases ds) (auto simp: ds_def [symmetric] sign_part_def is_digit_def)
  show ?thesis
  proof (cases "i < 0")
    case True
    then have "show_int i = CHR ''-'' # ds" by (simp add: show_int_def ds_def)
    moreover have "sign_part (CHR ''-'' # ds @ e # r) = ''-''" by (simp add: sign_part_def)
    ultimately show ?thesis using ds e True by (simp add: match_number_def)
  next
    case False
    then have "show_int i = ds" by (simp add: show_int_def ds_def)
    then show ?thesis using ds e False no_sign by (simp add: match_number_def)
  qed
qed

subsection \<open>Objects\<close>

text \<open>
  An object as the agent writes it, field by field, and the values the scanner finds in it.
  A value text \<open>t\<close> reads as \<open>v\<close> when the scanner takes exactly \<open>t\<close> before a comma or brace.
\<close>

definition reads_as :: "string \<Rightarrow> json \<Rightarrow> bool" where
  "reads_as t v \<longleftrightarrow> t \<noteq> [] \<and> skip_ws t = t \<and>
     (\<forall>n e r. ends_value e \<longrightarrow> scan_once (Suc n) (t @ e # r) = Inr (v, e # r))"

fun fields_text :: "(string \<times> string) list \<Rightarrow> string" where
  "fields_text [] = []"
| "fields_text [(k, t)] = quoted k @ '':'' @ t @ ''}''"
| "fields_text ((k, t) # f # fs) = quoted k @ '':'' @ t @ '','' @ fields_text (f # fs)"

lemma skip_ws_append:
  assumes "t \<noteq> []" and "skip_ws t = t"
  shows "skip_ws (t @ r) = t @ r"
proof -
  obtain a l where t: "t = a # l" using assms(1) by (cases t) auto
  have "skip_ws l \<noteq> a # l" using length_skip_ws [of l] by auto
  with assms(2) t show ?thesis by (auto simp: skip_ws_def split: if_splits)
qed

lemma skip_ws_end: "ends_value e \<Longrightarrow> skip_ws (e # r) = e # r"
  by (auto simp: ends_value_def skip_ws_def)

definition plain_key :: "string \<Rightarrow> bool" where
  "plain_key k \<longleftrightarrow> list_all (\<lambda>c. 32 \<le> ord_of c \<and> c \<noteq> dquote \<and> c \<noteq> backslash) k"

lemma scanstring_plain: "plain_key k \<Longrightarrow> scanstring (k @ dquote # r) = Inr (k, r)"
  by (induction k) (auto simp: plain_key_def)

lemma fields_text_Cons: "fs \<noteq> [] \<Longrightarrow> \<exists>u. fields_text fs = dquote # u"
  by (cases fs rule: fields_text.cases) (auto simp: quoted_def)

lemma scan_object_fields:
  assumes "fs \<noteq> []" and "\<And>k t v. (k, t, v) \<in> set fs \<Longrightarrow> plain_key k \<and> reads_as t v" and "length fs < n"
  shows "scan_object n (fields_text (map (\<lambda>(k, t, v). (k, t)) fs) @ rest) = Inr (map (\<lambda>(k, t, v). (k, v)) fs, rest)"
  using assms
proof (induction fs arbitrary: n)
  case (Cons f fs)
  obtain k t v where f: "f = (k, t, v)" by (cases f)
  obtain m where n: "n = Suc (Suc m)" using Cons.prems(3) by (cases n; cases "n - 1") auto
  have k: "plain_key k" and t: "t \<noteq> []" "skip_ws t = t" and scan: "\<And>m e r. ends_value e \<Longrightarrow> scan_once (Suc m) (t @ e # r) = Inr (v, e # r)"
    using Cons.prems(2) [of k t v] f by (auto simp: reads_as_def)
  note skip = skip_ws_append [OF t] skip_ws_end
  have colon: "skip_ws (CHR '':'' # r) = CHR '':'' # r" for r by (simp add: skip_ws_def)
  show ?case
  proof (cases "fs = []")
    case True
    then show ?thesis
      using scan [of "CHR ''}''" m rest] skip(2) [of "CHR ''}''" rest] colon
      by (simp add: f n quoted_def scanstring_plain [OF k] skip(1) ends_value_def del: scan_once.simps)
  next
    case False
    let ?rest = "fields_text (map (\<lambda>(k, t, v). (k, t)) fs) @ rest"
    obtain g gs where fs: "fs = g # gs" using False by (cases fs) auto
    have whole: "fields_text (map (\<lambda>(k, t, v). (k, t)) (f # fs)) @ rest = dquote # k @ dquote # CHR '':'' # t @ CHR '','' # ?rest"
      by (simp add: f fs quoted_def case_prod_unfold)
    obtain u where "?rest = dquote # u" using fields_text_Cons [of "map (\<lambda>(k, t, v). (k, t)) fs"] False by auto
    then have quote: "skip_ws ?rest = ?rest" by (simp add: skip_ws_def dquote_def ascii_chars)
    have "scan_object (Suc m) ?rest = Inr (map (\<lambda>(k, t, v). (k, v)) fs, rest)"
      using Cons.IH [OF False, of "Suc m"] Cons.prems n by auto
    then show ?thesis
      unfolding whole using scan [of "CHR '',''" m ?rest] skip(2) [of "CHR '',''" ?rest] colon quote
      by (simp add: f n scanstring_plain [OF k] skip(1) ends_value_def del: scan_once.simps)
  qed
qed simp

lemma reads_as_str:
  assumes "utf8_ok sp s"
  shows "reads_as (quoted (json_escape s)) (JStr s)"
proof -
  have "skip_ws (quoted t) = quoted t" for t by (simp add: quoted_def skip_ws_def dquote_def ascii_chars)
  then show ?thesis
    using scanstring_escape [OF assms] by (simp add: reads_as_def quoted_def del: json_escape.simps)
qed

lemma scan_once_atom: "c \<noteq> dquote \<Longrightarrow> c \<noteq> CHR ''{'' \<Longrightarrow> c \<noteq> CHR ''['' \<Longrightarrow> scan_once (Suc n) (c # t) = scan_atom (c # t)"
  by simp

lemma show_int_shape: "\<exists>c t. show_int i = c # t \<and> (is_digit c \<or> c = CHR ''-'' \<and> (\<exists>d u. t = d # u \<and> is_digit d))"
proof -
  have nat: "\<exists>d u. show_nat n = d # u \<and> is_digit d" for n using show_nat_digits [of n] by (cases "show_nat n") auto
  show ?thesis using nat [of "nat i"] nat [of "nat (- i)"] by (cases "i < 0") (auto simp: show_int_def)
qed

lemma reads_as_int:
  assumes "length (show_nat (nat \<bar>i\<bar>)) \<le> 4300"
  shows "reads_as (show_int i) (JInt i)"
proof -
  obtain c t where ct: "show_int i = c # t" and shape: "is_digit c \<or> c = CHR ''-'' \<and> (\<exists>d u. t = d # u \<and> is_digit d)"
    using show_int_shape [of i] by blast
  have c: "c \<noteq> dquote" "c \<noteq> CHR ''{''" "c \<noteq> CHR ''[''" and ws: "skip_ws (c # t) = c # t"
    using shape by (auto simp: is_digit_def dquote_def skip_ws_def ascii_chars)
  have atom: "scan_atom (c # t @ r) = match_number (c # t @ r)" for r
    using shape
  proof
    assume "is_digit c"
    then have "c \<notin> set ''ntfNI-''" by (auto simp: is_digit_def)
    then show ?thesis by (simp add: scan_atom_def startswith_def)
  next
    assume "c = CHR ''-'' \<and> (\<exists>d u. t = d # u \<and> is_digit d)"
    then obtain d u where "c = CHR ''-''" "t = d # u" "is_digit d" by blast
    moreover from \<open>is_digit d\<close> have "d \<noteq> CHR ''I''" by (auto simp: is_digit_def)
    ultimately show ?thesis by (simp add: scan_atom_def startswith_def)
  qed
  have "scan_once (Suc n) (show_int i @ e # r) = Inr (JInt i, e # r)" if "ends_value e" for n e r
    using match_show_int [OF that assms, of r] scan_once_atom [OF c] atom [of "e # r"]
    by (simp add: ct del: scan_once.simps)
  with ws show ?thesis unfolding reads_as_def by (simp add: ct del: scan_once.simps)
qed

subsection \<open>Whole messages\<close>

lemma utf8_ok_wide:
  assumes "wide_char ch" and "utf8_ok sp ch"
  shows "utf8_ok sp (ch @ t) = utf8_ok sp t"
proof -
  from assms(1) obtain c r where ch: "ch = c # r" "0x80 \<le> ord_of c" "seq_len c = Suc (length r)"
    by (auto simp: wide_char_def)
  then have len: "length r \<in> {1, 2, 3}" using assms(1) by (auto simp: wide_char_def seq_len_def Let_def split: if_splits)
  then consider x where "r = [x]" | x y where "r = [x, y]" | x y z where "r = [x, y, z]"
    by (auto simp: length_Suc_conv numeral_2_eq_2 numeral_3_eq_3)
  then show ?thesis
    using ch assms(2) by cases (auto simp: Let_def split: if_splits)
qed

lemma utf8_ok_append: "utf8_ok sp a \<Longrightarrow> utf8_ok sp (a @ b) = utf8_ok sp b"
  by (induction a rule: utf8_ok_induct) (simp_all add: utf8_ok_wide del: utf8_ok.simps(2), simp)

lemma utf8_ok_ascii: "list_all (\<lambda>c. ord_of c < 0x80) s \<Longrightarrow> utf8_ok sp s"
  by (induction s) auto

lemma escape_ascii_ascii: "ord_of c < 0x80 \<Longrightarrow> list_all (\<lambda>c. ord_of c < 0x80) (escape_ascii c)"
  by (auto simp: escape_ascii_def Let_def backslash_def dquote_def hex_char_def ascii_chars)

lemma utf8_ok_escape:
  assumes "utf8_ok False s"
  shows "utf8_ok False (json_escape s)"
  using assms
proof (induction s rule: utf8_ok_induct)
  case (ascii c t)
  then show ?case
    by (simp add: json_escape_ascii utf8_ok_append utf8_ok_ascii escape_ascii_ascii del: json_escape.simps)
next
  case (wide ch t)
  then show ?case by (simp add: json_escape_wide utf8_ok_wide del: json_escape.simps)
qed simp

lemma utf8_ok_weaken: "utf8_ok False s \<Longrightarrow> utf8_ok True s"
  by (induction "False" s rule: utf8_ok.induct) (auto simp: Let_def split: if_splits list.splits)

lemma reads_as_plain: "plain_key s \<Longrightarrow> reads_as (quoted s) (JStr s)"
  by (simp add: reads_as_def quoted_def skip_ws_def dquote_def ascii_chars scanstring_plain [unfolded dquote_def ascii_chars])

lemma length_fields_text: "length fs \<le> length (fields_text fs)"
  by (induction fs rule: fields_text.induct) (auto simp: quoted_def)

lemma detect_object: "detect_encoding (CHR ''{'' # dquote # a # b # s) = UTF8"
proof -
  have "CHR ''{'' \<noteq> char_of (0 :: nat)" "CHR ''{'' \<noteq> char_of (254 :: nat)" "CHR ''{'' \<noteq> char_of (255 :: nat)"
    "CHR ''{'' \<noteq> char_of (239 :: nat)" by code_simp+
  then show ?thesis by (simp add: detect_encoding_def startswith_def bytes_of_def dquote_def ascii_chars Let_def)
qed

lemma fields_text_long: "fs \<noteq> [] \<Longrightarrow> \<exists>a b s. fields_text fs = dquote # a # b # s"
proof -
  have two: "\<exists>a b s. k @ x # y # r = a # b # s" for k r :: string and x y by (cases k; cases "tl k") auto
  assume "fs \<noteq> []"
  then show ?thesis by (cases fs rule: fields_text.cases) (auto simp: quoted_def intro: two)
qed

lemma json_loads_object:
  assumes "fs \<noteq> []" and "\<And>k t v. (k, t, v) \<in> set fs \<Longrightarrow> plain_key k \<and> reads_as t v"
    and "utf8_ok True (fields_text (map (\<lambda>(k, t, v). (k, t)) fs))"
  shows "json_loads (CHR ''{'' # fields_text (map (\<lambda>(k, t, v). (k, t)) fs)) = Inr (JObj (map (\<lambda>(k, t, v). (k, v)) fs))"
proof -
  define body where "body = fields_text (map (\<lambda>(k, t, v). (k, t)) fs)"
  obtain a b u where body: "body = dquote # a # b # u"
    using fields_text_long [of "map (\<lambda>(k, t, v). (k, t)) fs"] assms(1) by (auto simp: body_def)
  have "decode_bytes (CHR ''{'' # body) = Some (CHR ''{'' # body)"
    using assms(3) by (simp add: decode_bytes_def body detect_object body_def [symmetric])
  moreover have "length fs < 2 * length (CHR ''{'' # body)"
    using length_fields_text [of "map (\<lambda>(k, t, v). (k, t)) fs"] by (simp add: body_def)
  from scan_object_fields [OF assms(1,2) this, of "[]"]
  have "scan_object (2 * length (CHR ''{'' # body)) body = Inr (map (\<lambda>(k, t, v). (k, v)) fs, [])"
    by (simp add: body_def)
  moreover have "skip_ws body = body" "skip_ws (CHR ''{'' # body) = CHR ''{'' # body" "skip_ws [] = []"
    by (simp_all add: body skip_ws_def dquote_def ascii_chars)
  moreover have "dquote \<noteq> CHR ''}''" "CHR ''{'' \<noteq> dquote" by (simp_all add: dquote_def ascii_chars)
  ultimately show ?thesis
    unfolding json_loads_def json_decode_def body_def [symmetric]
    by (simp add: body dquote_def [symmetric] del: scan_object.simps)
qed

lemma utf8_quoted: "utf8_ok sp s \<Longrightarrow> utf8_ok sp (quoted s)"
  by (simp add: quoted_def utf8_ok_append dquote_def ascii_chars)

lemma utf8_fields: "list_all (\<lambda>(k, t). utf8_ok sp k \<and> utf8_ok sp t) fs \<Longrightarrow> utf8_ok sp (fields_text fs)"
  by (induction fs rule: fields_text.induct) (simp_all add: utf8_ok_append utf8_quoted)

lemma utf8_show_int: "utf8_ok sp (show_int i)"
proof -
  have "list_all (\<lambda>c. ord_of c < 0x80) (show_nat n)" for n
    using show_nat_digits [of n] by (auto simp: list_all_iff is_digit_def)
  then have "list_all (\<lambda>c. ord_of c < 0x80) (show_int i)" by (simp add: show_int_def)
  then show ?thesis by (rule utf8_ok_ascii)
qed

lemma utf8_escaped: "utf8_ok False s \<Longrightarrow> utf8_ok True (quoted (json_escape s))"
  by (intro utf8_quoted utf8_ok_weaken utf8_ok_escape)

text \<open>A time stamp in milliseconds is a 64-bit number: at most 19 digits.\<close>

lemma stamp_digits:
  assumes "\<bar>ts\<bar> < 2 ^ 63"
  shows "length (show_nat (nat \<bar>ts\<bar>)) \<le> 4300"
proof -
  have "\<bar>ts\<bar> < 10 ^ Suc 18" using assms by simp
  then have "nat \<bar>ts\<bar> < 10 ^ Suc 18" by (simp only: nat_less_iff [OF abs_ge_zero] of_nat_power of_nat_numeral)
  from length_show_nat [OF this] show ?thesis by simp
qed

text \<open>The message of a list of fields: a number, a plain word, then escaped strings.\<close>

lemma message_decodes:
  assumes "\<bar>ts\<bar> < 2 ^ 63" and "plain_key ev \<and> utf8_ok True ev"
    and strs: "\<forall>(k, s) \<in> set kss. plain_key k \<and> utf8_ok True k \<and> utf8_ok False s"
  shows "json_loads (CHR ''{'' # fields_text ((''ts'', show_int ts) # (''event'', quoted ev) #
      map (\<lambda>(k, s). (k, quoted (json_escape s))) kss)) =
    Inr (JObj ((''ts'', JInt ts) # (''event'', JStr ev) # map (\<lambda>(k, s). (k, JStr s)) kss))"
proof -
  let ?fs = "(''ts'', show_int ts, JInt ts) # (''event'', quoted ev, JStr ev) #
    map (\<lambda>(k, s). (k, quoted (json_escape s), JStr s)) kss"
  have keys: "plain_key ''ts''" "plain_key ''event''"
    by (simp_all add: plain_key_def dquote_def backslash_def ascii_chars)
  have "json_loads (CHR ''{'' # fields_text (map (\<lambda>(k, t, v). (k, t)) ?fs)) = Inr (JObj (map (\<lambda>(k, t, v). (k, v)) ?fs))"
  proof (rule json_loads_object)
    show "plain_key k \<and> reads_as t v" if "(k, t, v) \<in> set ?fs" for k t v
      using that assms(2) keys strs reads_as_int [OF stamp_digits [OF assms(1)]]
      by (auto intro: reads_as_str reads_as_plain simp del: json_escape.simps)
    show "utf8_ok True (fields_text (map (\<lambda>(k, t, v). (k, t)) ?fs))"
      by (rule utf8_fields) (use assms(2) strs in
        \<open>auto simp: utf8_show_int utf8_escaped utf8_quoted list_all_iff simp del: json_escape.simps\<close>)
  qed simp
  then show ?thesis by (simp add: comp_def case_prod_unfold del: json_escape.simps fields_text.simps)
qed

lemma plain_words:
  "plain_key ''mtime_change'' \<and> utf8_ok True ''mtime_change''" "plain_key ''delete'' \<and> utf8_ok True ''delete''"
  "plain_key ''rename'' \<and> utf8_ok True ''rename''" "plain_key ''path'' \<and> utf8_ok True ''path''"
  "plain_key ''old_path'' \<and> utf8_ok True ''old_path''" "plain_key ''new_path'' \<and> utf8_ok True ''new_path''"
  "plain_key ''hostname'' \<and> utf8_ok True ''hostname''"
  by code_simp+

lemma build_json_decodes:
  assumes "\<bar>ts\<bar> < 2 ^ 63" and "ev \<in> {''mtime_change'', ''delete''}" and "utf8_ok False path" and "utf8_ok False host"
  shows "json_loads (build_json ts ev path host) =
    Inr (JObj [(''ts'', JInt ts), (''event'', JStr ev), (''path'', JStr path), (''hostname'', JStr host)])"
proof -
  have "plain_key ev \<and> utf8_ok True ev" using assms(2) plain_words by blast
  from message_decodes [OF assms(1) this, of "[(''path'', path), (''hostname'', host)]"] assms(3,4) plain_words
  show ?thesis by (simp add: build_json_def quoted_def del: json_escape.simps utf8_ok.simps)
qed

lemma rename_json_decodes:
  assumes "\<bar>ts\<bar> < 2 ^ 63" and "utf8_ok False old" and "utf8_ok False new" and "utf8_ok False host"
  shows "json_loads (rename_json ts old new host) =
    Inr (JObj [(''ts'', JInt ts), (''event'', JStr ''rename''), (''old_path'', JStr old), (''new_path'', JStr new), (''hostname'', JStr host)])"
  using message_decodes [OF assms(1) plain_words(3), of "[(''old_path'', old), (''new_path'', new), (''hostname'', host)]"]
    assms(2-4) plain_words
  by (simp add: rename_json_def quoted_def del: json_escape.simps utf8_ok.simps)

subsection \<open>What the consumer makes of a message\<close>

lemmas parse_steps = parse_event_def loads_value_def handle_parsed_def parse_mtime_def parse_rename_def event_get_def dict_get_def
  count_processed_def append_batch_def inc_def py_defs

lemma change_parsed:
  assumes "\<bar>ts\<bar> < 2 ^ 63" and "utf8_ok False path" and "utf8_ok False host" and "path \<noteq> []"
  shows "\<exists>t. parse_event (Some (build_json ts ''mtime_change'' path host)) s = Some (Inr (), t) \<and>
      batch t = batch s @ [Act_hset (JStr path) (JStr ''mtime_change'')] \<and> processed t = processed s + 1 \<and> errors t = errors s"
  using assms(4) by (simp add: parse_steps build_json_decodes [OF assms(1) _ assms(2,3)])

lemma delete_parsed:
  assumes "\<bar>ts\<bar> < 2 ^ 63" and "utf8_ok False path" and "utf8_ok False host"
  shows "\<exists>t. parse_event (Some (build_json ts ''delete'' path host)) s = Some (Inr (), t) \<and>
      batch t = batch s \<and> skipped_delete t = skipped_delete s + 1 \<and> processed t = processed s + 1 \<and> errors t = errors s"
  by (simp add: parse_steps build_json_decodes [OF assms(1) _ assms(2,3)])

subsection \<open>Property\<close>

text \<open>
  C26: the consumer reads what the agent wrote. For paths and a host name in UTF-8, the message of a
  change puts exactly that path into the batch, the message of a rename exactly the two paths, and
  the message of a deletion is counted and skipped; none is counted as an error, and none raises.
\<close>

theorem consumer_reads_agent_events:
  assumes "\<bar>ts\<bar> < 2 ^ 63" and "utf8_ok False path" and "utf8_ok False new_path" and "utf8_ok False host"
    and "path \<noteq> []" and "new_path \<noteq> []"
  shows "(\<exists>t. parse_event (Some (build_json ts ''mtime_change'' path host)) s = Some (Inr (), t) \<and>
      batch t = batch s @ [Act_hset (JStr path) (JStr ''mtime_change'')] \<and> processed t = processed s + 1 \<and> errors t = errors s) \<and>
    (\<exists>t. parse_event (Some (rename_json ts path new_path host)) s = Some (Inr (), t) \<and>
      batch t = batch s @ [Act_rename (JStr path) (JStr new_path)] \<and> processed t = processed s + 1 \<and> errors t = errors s) \<and>
    (\<exists>t. parse_event (Some (build_json ts ''delete'' path host)) s = Some (Inr (), t) \<and>
      batch t = batch s \<and> skipped_delete t = skipped_delete s + 1 \<and> processed t = processed s + 1 \<and> errors t = errors s)"
proof -
  have "\<exists>t. parse_event (Some (rename_json ts path new_path host)) s = Some (Inr (), t) \<and>
      batch t = batch s @ [Act_rename (JStr path) (JStr new_path)] \<and> processed t = processed s + 1 \<and> errors t = errors s"
    using assms(5,6) by (simp add: parse_steps rename_json_decodes [OF assms(1-4)])
  with change_parsed [OF assms(1,2,4,5)] delete_parsed [OF assms(1,2,4)] show ?thesis by blast
qed

theorem consumer_reads_agent_events_witness:
  "\<exists>t. parse_event (Some (build_json 1 ''mtime_change'' ''/home/a'' ''h'')) (ep_init () []) = Some (Inr (), t) \<and>
     batch t = [Act_hset (JStr ''/home/a'') (JStr ''mtime_change'')]"
proof -
  have "utf8_ok False ''/home/a''" "utf8_ok False ''h''" by code_simp+
  with consumer_reads_agent_events [of 1 "''/home/a''" "''/home/a''" "''h''" "ep_init () []"] show ?thesis
    by (auto simp: ep_init_def)
qed

end
