(* ===== verification/Debouncer.thy ===== *)
theory Debouncer
  imports PyStrings "HOL-Library.Word"
begin

text \<open>
  The agent's event handling: \<open>build_path\<close> (\<open>include/common.h\<close>), \<open>handle_event\<close> with its rename pairing
  (\<open>src/main.cpp\<close>) and the \<open>Debouncer\<close> (\<open>src/debouncer.cpp\<close>). Time is the value \<open>Clock::now()\<close> gives, in
  any unit (nanoseconds in \<open>AgentMain\<close>), an argument of the operations; the callbacks are the list of what is fired. The
  hash map of entries is an association list in its order of iteration.
\<close>

subsection \<open>Debouncer\<close>

definition EVENT_DELETE :: nat where "EVENT_DELETE = 0"
definition EVENT_MTIME :: nat where "EVENT_MTIME = 1"
definition EVENT_RENAME_FROM :: nat where "EVENT_RENAME_FROM = 2"
definition EVENT_RENAME_TO :: nat where "EVENT_RENAME_TO = 3"

record entry =
  first_seen :: int
  last_seen :: int

record debouncer =
  quiet_period :: int
  max_wait :: int
  entries :: "(string \<times> entry) list"

type_synonym fired = "(string \<times> nat) list"

definition set_entries :: "(string \<times> entry) list \<Rightarrow> debouncer \<Rightarrow> debouncer" where
  "set_entries es d = d\<lparr>entries := es\<rparr>"

definition erase :: "string \<Rightarrow> (string \<times> entry) list \<Rightarrow> (string \<times> entry) list" where
  "erase path es = filter (\<lambda>(p, _). p \<noteq> path) es"

definition touch :: "int \<Rightarrow> string \<Rightarrow> (string \<times> entry) list \<Rightarrow> (string \<times> entry) list" where
  "touch now path es = map (\<lambda>(p, en). (p, if p = path then en\<lparr>last_seen := now\<rparr> else en)) es"

definition on_event :: "int \<Rightarrow> string \<Rightarrow> nat \<Rightarrow> debouncer \<Rightarrow> fired \<times> debouncer" where
  "on_event now path event_type d =
     (if event_type = EVENT_DELETE then ([(path, event_type)], set_entries (erase path (entries d)) d)
      else case map_of (entries d) path of
        None \<Rightarrow> ([], set_entries (entries d @ [(path, \<lparr>first_seen = now, last_seen = now\<rparr>)]) d)
      | Some en \<Rightarrow>
          if now - first_seen en \<ge> max_wait d then ([(path, event_type)], set_entries (erase path (entries d)) d)
          else ([], set_entries (touch now path (entries d)) d))"

definition expired :: "int \<Rightarrow> debouncer \<Rightarrow> entry \<Rightarrow> bool" where
  "expired now d en \<longleftrightarrow> now - last_seen en \<ge> quiet_period d"

definition tick :: "int \<Rightarrow> debouncer \<Rightarrow> fired \<times> debouncer" where
  "tick now d =
     (map (\<lambda>(p, _). (p, EVENT_MTIME)) (filter (\<lambda>(_, en). expired now d en) (entries d)),
      set_entries (filter (\<lambda>(_, en). \<not> expired now d en) (entries d)) d)"

definition flush_all :: "debouncer \<Rightarrow> fired \<times> debouncer" where
  "flush_all d = (map (\<lambda>(p, _). (p, EVENT_MTIME)) (entries d), set_entries [] d)"

definition deb_pending :: "debouncer \<Rightarrow> nat" where
  "deb_pending d = length (entries d)"

subsection \<open>handle_event\<close>

record file_event =
  ts_ns :: "64 word"
  event_type :: nat
  depth :: nat
  names :: "string list"

definition build_path :: "file_event \<Rightarrow> string" where
  "build_path evt = (let path = concat (map (\<lambda>n. CHR ''/'' # n) (rev (take (depth evt) (names evt))))
     in if path = [] then ''/'' else path)"

record event_ctx =
  ctx_debouncer :: debouncer
  watch_prefix :: string
  pending_rename_from :: string
  has_pending_rename :: bool

text \<open>What the handler passes on: a rename, or what the debouncer fires.\<close>

datatype sent = Renamed string string | Fired string nat

definition handle_event :: "int \<Rightarrow> file_event \<Rightarrow> event_ctx \<Rightarrow> sent list \<times> event_ctx" where
  "handle_event now evt ctx =
     (let path = build_path evt in
      if event_type evt = EVENT_RENAME_FROM then
        ([], ctx\<lparr>pending_rename_from := path, has_pending_rename := True\<rparr>)
      else if event_type evt = EVENT_RENAME_TO then
        (if has_pending_rename ctx then
           (if startswith (pending_rename_from ctx) (watch_prefix ctx) \<or> startswith path (watch_prefix ctx)
            then [Renamed (pending_rename_from ctx) path] else [],
            ctx\<lparr>has_pending_rename := False\<rparr>)
         else ([], ctx))
      else let ctx = ctx\<lparr>has_pending_rename := False\<rparr> in
        if \<not> startswith path (watch_prefix ctx) then ([], ctx)
        else let (out, d) = on_event now path (event_type evt) (ctx_debouncer ctx)
             in (map (\<lambda>(p, e). Fired p e) out, ctx\<lparr>ctx_debouncer := d\<rparr>))"

subsection \<open>Runs of the debouncer\<close>

datatype deb_op = Event int string nat | Tick int | Flush

fun deb_step :: "deb_op \<Rightarrow> debouncer \<Rightarrow> fired \<times> debouncer" where
  "deb_step (Event now path ev) d = on_event now path ev d"
| "deb_step (Tick now) d = tick now d"
| "deb_step Flush d = flush_all d"

fun deb_run :: "deb_op list \<Rightarrow> debouncer \<Rightarrow> fired \<times> debouncer" where
  "deb_run [] d = ([], d)"
| "deb_run (op # ops) d = (let (out, d1) = deb_step op d; (outs, d2) = deb_run ops d1 in (out @ outs, d2))"

abbreviation waiting :: "debouncer \<Rightarrow> string set" where
  "waiting d \<equiv> fst ` set (entries d)"

lemma entries_set [simp]: "entries (set_entries es d) = es" "quiet_period (set_entries es d) = quiet_period d"
  "max_wait (set_entries es d) = max_wait d"
  by (simp_all add: set_entries_def)

lemma erase_keys: "fst ` set (erase p es) = fst ` set es - {p}"
  by (force simp: erase_def)

lemma touch_keys [simp]: "map fst (touch now path es) = map fst es" "fst ` set (touch now path es) = fst ` set es"
  by (force simp: touch_def)+

text \<open>A path that waits is fired or still waits.\<close>

lemma deb_step_keeps:
  assumes "p \<in> waiting d" and "deb_step op d = (out, d')"
  shows "p \<in> fst ` set out \<or> p \<in> waiting d'"
  using assms
proof (cases op)
  case (Event now q ev)
  with assms show ?thesis
    by (cases "p = q") (auto simp: on_event_def erase_keys split: if_splits option.splits del: imageE)
next
  case (Tick now)
  with assms show ?thesis by (force simp: tick_def)
next
  case Flush
  with assms show ?thesis by (force simp: flush_all_def)
qed

lemma deb_run_keeps:
  "p \<in> waiting d \<Longrightarrow> deb_run ops d = (out, d') \<Longrightarrow> p \<in> fst ` set out \<or> p \<in> waiting d'"
proof (induction ops arbitrary: d out)
  case (Cons op ops)
  obtain o1 d1 where 1: "deb_step op d = (o1, d1)" by (cases "deb_step op d")
  obtain o2 d2 where 2: "deb_run ops d1 = (o2, d2)" by (cases "deb_run ops d1")
  from Cons.prems 1 2 have out: "out = o1 @ o2" "d' = d2" by auto
  from deb_step_keeps [OF Cons.prems(1) 1] Cons.IH [of d1 o2] 2 show ?case
    by (auto simp: out image_Un)
qed simp

lemma deb_run_append: "deb_run (xs @ ys) d =
    (let (o1, d1) = deb_run xs d; (o2, d2) = deb_run ys d1 in (o1 @ o2, d2))"
  by (induction xs arbitrary: d) (auto simp: Let_def split: prod.splits)

lemma on_event_seen:
  assumes "on_event now p ev d = (out, d')"
  shows "p \<in> fst ` set out \<or> p \<in> waiting d'"
proof (cases "map_of (entries d) p")
  case None
  with assms show ?thesis by (auto simp: on_event_def split: if_splits)
next
  case (Some en)
  then have "p \<in> waiting d" by (force dest: map_of_SomeD)
  with Some assms show ?thesis by (auto simp: on_event_def split: if_splits del: imageE)
qed

subsection \<open>Freshness\<close>

text \<open>
  The state of the debouncer at a moment: every path at most once, first seen before last seen,
  last seen not in the future.
\<close>

definition deb_inv :: "int \<Rightarrow> debouncer \<Rightarrow> bool" where
  "deb_inv now d \<longleftrightarrow> distinct (map fst (entries d)) \<and>
     (\<forall>(p, en) \<in> set (entries d). first_seen en \<le> last_seen en \<and> last_seen en \<le> now)"

lemma deb_inv_later: "deb_inv t d \<Longrightarrow> t \<le> now \<Longrightarrow> deb_inv now d"
  by (fastforce simp: deb_inv_def)

lemma distinct_filter_keys: "distinct (map fst es) \<Longrightarrow> distinct (map fst (filter P es))"
  by (induction es) (auto simp: image_iff)

lemma deb_inv_filter: "deb_inv now d \<Longrightarrow> deb_inv now (set_entries (filter P (entries d)) d)"
  by (auto simp: deb_inv_def distinct_filter_keys)

lemma touch_inv: "deb_inv now d \<Longrightarrow> deb_inv now (set_entries (touch now path (entries d)) d)"
  by (fastforce simp: deb_inv_def touch_def comp_def case_prod_unfold)

lemma on_event_inv: "deb_inv now d \<Longrightarrow> deb_inv now (snd (on_event now path ev d))"
proof (cases "map_of (entries d) path")
  case None
  then have "path \<notin> waiting d" by (simp add: map_of_eq_None_iff)
  moreover assume "deb_inv now d"
  ultimately show ?thesis using None
    by (simp add: on_event_def erase_def deb_inv_filter) (auto simp: deb_inv_def)
next
  case (Some en)
  assume "deb_inv now d"
  with Some show ?thesis by (auto simp: on_event_def erase_def deb_inv_filter touch_inv)
qed

lemma tick_inv: "deb_inv now d \<Longrightarrow> deb_inv now (snd (tick now d))"
  by (simp add: tick_def deb_inv_filter)

subsection \<open>Properties\<close>

text \<open>
  No change is lost by debouncing. In whatever state, and whatever events and ticks come after, a path for
  which an event came is fired at that event or later, at the latest by the flush at shutdown.
\<close>

theorem debouncer_loses_no_event:
  assumes "deb_run (Event now path ev # after @ [Flush]) d1 = (out, d2)"
  shows "path \<in> fst ` set out \<and> deb_pending d2 = 0"
proof -
  obtain o1 d1' where 1: "on_event now path ev d1 = (o1, d1')" by (cases "on_event now path ev d1")
  obtain o2 d3 where 2: "deb_run after d1' = (o2, d3)" by (cases "deb_run after d1'")
  have out: "out = o1 @ o2 @ fst (flush_all d3)" "d2 = snd (flush_all d3)"
    using assms by (auto simp: 1 2 deb_run_append Let_def split: prod.splits)
  have "path \<in> fst ` set o1 \<or> path \<in> fst ` set o2 \<or> path \<in> waiting d3"
    using on_event_seen [OF 1] deb_run_keeps [OF _ 2] by blast
  moreover have "fst ` set (fst (flush_all d3)) = waiting d3" by (force simp: flush_all_def)
  ultimately show ?thesis by (auto simp: out image_Un flush_all_def deb_pending_def)
qed

theorem debouncer_loses_no_event_witness:
  "''/a'' \<in> fst ` set (fst (deb_run [Event 10 ''/a'' EVENT_MTIME, Tick 20, Event 30 ''/a'' EVENT_MTIME, Flush]
     \<lparr>quiet_period = 100, max_wait = 1000, entries = []\<rparr>))"
  using debouncer_loses_no_event [of 10 "''/a''" EVENT_MTIME "[Tick 20, Event 30 ''/a'' EVENT_MTIME]"
      "\<lparr>quiet_period = 100, max_wait = 1000, entries = []\<rparr>"]
  by (simp add: prod_eq_iff)



end
