(* ===== verification/Wal.thy ===== *)
theory Wal
  imports Prelude "HOL-Library.Word"
begin

unbundle bit_operations_syntax

text \<open>
  The write-ahead log of the agent (\<open>src/wal.cpp\<close>, \<open>include/wal.h\<close>): records of a little-endian length,
  the CRC-32 of the data and the data, appended to a file that is read back on start-up.
  The file is its contents as a string of bytes. Opening, writing and reopening may fail, as arguments
  say; a write that fails may have reached the file in part.
\<close>

subsection \<open>CRC-32\<close>

text \<open>One bit of the division, the table of 256 entries, and the loop over the bytes.\<close>

definition crc_bit :: "32 word \<Rightarrow> 32 word" where
  "crc_bit c = (if bit c 0 then 0xEDB88320 XOR drop_bit 1 c else drop_bit 1 c)"

definition crc32_table :: "32 word \<Rightarrow> 32 word" where
  "crc32_table i = (crc_bit ^^ 8) i"

definition crc_byte :: "32 word \<Rightarrow> char \<Rightarrow> 32 word" where
  "crc_byte c b = crc32_table ((c XOR of_char b) AND 0xFF) XOR drop_bit 8 c"

definition crc32 :: "string \<Rightarrow> 32 word" where
  "crc32 data = foldl crc_byte 0xFFFFFFFF data XOR 0xFFFFFFFF"

subsection \<open>The file format\<close>

definition le32 :: "32 word \<Rightarrow> string" where
  "le32 w = [char_of (unat w), char_of (unat w div 2 ^ 8), char_of (unat w div 2 ^ 16), char_of (unat w div 2 ^ 24)]"

fun get32 :: "string \<Rightarrow> (32 word \<times> string) option" where
  "get32 (a # b # c # d # rest) =
     Some (of_char a + 2 ^ 8 * of_char b + 2 ^ 16 * of_char c + 2 ^ 24 * of_char d, rest)"
| "get32 _ = None"

record wal =
  wal_fp :: bool
  wal_file :: string
  records_written :: "64 word"

text \<open>
  The outcome of a write is two arguments: \<open>written\<close>, whether the calls of \<open>fwrite\<close> all took what they
  were given, and \<open>reached\<close>, how many bytes of the record are in the file after \<open>fflush\<close>. The two are
  independent, since \<open>fwrite\<close> fills a buffer and the result of \<open>fflush\<close> is not looked at.
  The length is cut to 32 bits, and that many bytes of the data are written.
\<close>

definition wal_record :: "string \<Rightarrow> string" where
  "wal_record data = (let len = word_of_nat (length data) :: 32 word
     in le32 len @ le32 (crc32 data) @ take (unat len) data)"

definition wal_append :: "bool \<Rightarrow> nat \<Rightarrow> string \<Rightarrow> wal \<Rightarrow> bool \<times> wal" where
  "wal_append written reached data w =
     (if \<not> wal_fp w then (False, w)
      else let w = w\<lparr>wal_file := wal_file w @ take reached (wal_record data)\<rparr> in
        if \<not> written then (False, w) else (True, w\<lparr>records_written := records_written w + 1\<rparr>))"

lemma get32_length: "get32 s = Some (n, rest) \<Longrightarrow> length s = length rest + 4"
  by (induction s rule: get32.induct) auto

function wal_records :: "string \<Rightarrow> string list" where
  "wal_records s = (case get32 s of None \<Rightarrow> [] | Some (len, s1) \<Rightarrow>
     (case get32 s1 of None \<Rightarrow> [] | Some (checksum, s2) \<Rightarrow>
       if len > 1024 * 1024 then []
       else if length s2 < unat len then []
       else let data = take (unat len) s2 in
         if crc32 data \<noteq> checksum then [] else data # wal_records (drop (unat len) s2)))"
  by auto
termination
  by (relation "measure length") (auto dest!: get32_length)

definition wal_read_all :: "bool \<Rightarrow> wal \<Rightarrow> string list" where
  "wal_read_all readable w = (if readable then wal_records (wal_file w) else [])"

definition wal_truncate :: "bool \<Rightarrow> bool \<Rightarrow> wal \<Rightarrow> wal" where
  "wal_truncate cleared reopened w =
     (if cleared then w\<lparr>wal_file := [], wal_fp := reopened, records_written := 0\<rparr>
      else w\<lparr>wal_fp := False, records_written := 0\<rparr>)"

text \<open>\<open>stat\<close> may fail; then the size is 0.\<close>

definition wal_file_size :: "bool \<Rightarrow> wal \<Rightarrow> 64 word" where
  "wal_file_size stat_ok w = (if stat_ok then word_of_nat (length (wal_file w)) else 0)"

text \<open>\<open>WAL::WAL\<close>: the file is opened for appending, its contents stay.\<close>

definition wal_open :: "bool \<Rightarrow> wal \<Rightarrow> wal" where
  "wal_open opened w = w\<lparr>wal_fp := opened, records_written := 0\<rparr>"

subsection \<open>The table-driven CRC is the bitwise one\<close>

lemma crc_bit_xor: "crc_bit (a XOR b) = crc_bit a XOR crc_bit b"
  by (auto simp: crc_bit_def bit_xor_iff drop_bit_xor ac_simps xor_self_eq)

lemma crc_bits_xor: "(crc_bit ^^ n) (a XOR b) = (crc_bit ^^ n) a XOR (crc_bit ^^ n) b"
  by (induction n) (simp_all add: crc_bit_xor)

lemma crc_bits_high:
  assumes "\<And>i. i < n \<Longrightarrow> \<not> bit x i"
  shows "(crc_bit ^^ n) x = drop_bit n x"
  using assms
proof (induction n)
  case (Suc n)
  then have "(crc_bit ^^ n) x = drop_bit n x" by simp
  moreover have "\<not> bit (drop_bit n x) 0" using Suc.prems [of n] by (simp add: bit_drop_bit_eq)
  ultimately show ?case by (simp add: crc_bit_def [of "drop_bit n x"] drop_bit_drop_bit)
qed simp

lemma split_low_byte: "(x :: 32 word) = (x AND 0xFF) XOR (x AND NOT 0xFF)"
  by (auto intro!: bit_word_eqI simp: bit_simps)

lemma bit_low_byte: "bit (0xFF :: 32 word) i \<longleftrightarrow> i < 8"
proof -
  have mask: "(0xFF :: 32 word) = mask 8" by (simp add: mask_eq_exp_minus_1)
  show ?thesis unfolding mask by (auto simp: bit_mask_iff)
qed

lemma bit_of_char: "bit (of_char b :: 32 word) i \<Longrightarrow> i < 8"
  by (cases b) (auto simp: bit_horner_sum_bit_word_iff simp flip: horner_sum_simps split: if_splits)

lemma crc_byte_bitwise: "crc_byte c b = (crc_bit ^^ 8) (c XOR of_char b)"
proof -
  let ?x = "c XOR of_char b"
  have "(crc_bit ^^ 8) (?x AND NOT 0xFF) = drop_bit 8 (?x AND NOT 0xFF)"
    by (rule crc_bits_high) (simp only: bit_and_iff bit_not_iff_eq bit_low_byte, simp)
  also have "\<dots> = drop_bit 8 c"
    by (rule bit_word_eqI, simp only: bit_drop_bit_eq o_apply bit_and_iff bit_not_iff_eq bit_xor_iff bit_low_byte)
      (auto dest: bit_of_char bit_imp_le_length)
  finally show ?thesis
    using crc_bits_xor [of 8 "?x AND 0xFF" "?x AND NOT 0xFF"] split_low_byte [of ?x]
    by (simp add: crc_byte_def crc32_table_def)
qed

text \<open>The reference: division bit by bit, without the table.\<close>

definition crc32_bitwise :: "string \<Rightarrow> 32 word" where
  "crc32_bitwise data = foldl (\<lambda>c b. (crc_bit ^^ 8) (c XOR of_char b)) 0xFFFFFFFF data XOR 0xFFFFFFFF"

subsection \<open>A changed byte changes the checksum\<close>

lemma xor_cancel: "(a XOR b :: 32 word) = a XOR c \<longleftrightarrow> b = c"
  by (metis xor.assoc xor_self_eq xor.left_neutral)

lemma bit_crc_bit_31: "bit (crc_bit c) 31 \<longleftrightarrow> bit c 0"
proof -
  have "bit (0xEDB88320 :: 32 word) 31" by code_simp
  moreover have "\<not> bit (drop_bit 1 c) 31" by (auto simp: bit_drop_bit_eq dest: bit_imp_le_length)
  ultimately show ?thesis by (simp add: crc_bit_def bit_xor_iff)
qed

lemma crc_bit_inj: "crc_bit a = crc_bit b \<Longrightarrow> a = b"
proof (rule bit_word_eqI)
  fix n
  assume eq: "crc_bit a = crc_bit b"
  then have low: "bit a 0 = bit b 0" using bit_crc_bit_31 by metis
  with eq have "drop_bit 1 a = drop_bit 1 b"
    by (auto simp: crc_bit_def xor_cancel split: if_splits)
  from arg_cong [OF this, of bit] have "bit a (Suc m) = bit b (Suc m)" for m
    by (auto simp: bit_drop_bit_eq fun_eq_iff)
  with low show "bit a n = bit b n" by (cases n) simp_all
qed

lemma crc_bits_inj: "(crc_bit ^^ n) a = (crc_bit ^^ n) b \<Longrightarrow> a = b"
  by (induction n) (auto dest: crc_bit_inj)

lemma of_char_word: "(of_char c :: 32 word) = word_of_nat (of_char c)"
  by (rule of_nat_of_char [symmetric])

lemma unat_of_char: "unat (of_char a :: 32 word) = of_char a"
proof -
  have "(of_char a :: nat) = of_char a mod 256" by (simp add: of_char_mod_256)
  also have "\<dots> < 256" by simp
  also have "(256 :: nat) < 2 ^ 32" by simp
  finally have "(of_char a :: nat) < 2 ^ 32" .
  then show ?thesis by (simp add: of_char_word unat_of_nat)
qed

lemma of_char_word_inj: "(of_char a :: 32 word) = of_char b \<longleftrightarrow> a = b"
  using unat_of_char of_char_eqI by metis

lemma foldl_crc_inj: "foldl crc_byte a data = foldl crc_byte b data \<Longrightarrow> a = b"
proof (induction data arbitrary: a b)
  case (Cons x data)
  then have "crc_byte a x = crc_byte b x" by simp
  then have "of_char x XOR a = of_char x XOR b" by (auto simp: crc_byte_bitwise xor.commute dest: crc_bits_inj)
  then show ?case by (simp add: xor_cancel)
qed simp

lemma crc32_changed_byte:
  assumes "b \<noteq> b'"
  shows "crc32 (xs @ b # ys) \<noteq> crc32 (xs @ b' # ys)"
proof
  assume "crc32 (xs @ b # ys) = crc32 (xs @ b' # ys)"
  then have "foldl crc_byte (crc_byte (foldl crc_byte 0xFFFFFFFF xs) b) ys =
      foldl crc_byte (crc_byte (foldl crc_byte 0xFFFFFFFF xs) b') ys"
    by (simp add: crc32_def xor.commute [of _ "0xFFFFFFFF"] xor_cancel)
  then have "crc_byte (foldl crc_byte 0xFFFFFFFF xs) b = crc_byte (foldl crc_byte 0xFFFFFFFF xs) b'"
    by (rule foldl_crc_inj)
  with assms show False by (auto simp: crc_byte_bitwise xor_cancel of_char_word_inj dest: crc_bits_inj)
qed

subsection \<open>Reading back\<close>

lemma length_le32 [simp]: "length (le32 w) = 4"
  by (simp add: le32_def)

lemma le_digits:
  assumes "(n :: nat) < 2 ^ 32"
  shows "n mod 256 + 2 ^ 8 * (n div 2 ^ 8 mod 256) + 2 ^ 16 * (n div 2 ^ 16 mod 256) + 2 ^ 24 * (n div 2 ^ 24 mod 256) = n"
proof -
  define a b c where "a = n div 256" and "b = a div 256" and "c = b div 256"
  have "n div 2 ^ 8 = a" "n div 2 ^ 16 = b" "n div 2 ^ 24 = c" by (simp_all add: a_def b_def c_def flip: div_mult2_eq)
  moreover have "c mod 256 = c" using assms by (simp add: a_def b_def c_def less_mult_imp_div_less flip: div_mult2_eq)
  moreover have "n = n mod 256 + 256 * a" "a = a mod 256 + 256 * b" "b = b mod 256 + 256 * c"
    by (simp_all add: a_def b_def c_def)
  moreover have "(2 ^ 8 :: nat) = 256" "(2 ^ 16 :: nat) = 65536" "(2 ^ 24 :: nat) = 16777216" by simp_all
  ultimately show ?thesis by (simp only:)
qed

lemma get32_le32 [simp]: "get32 (le32 w @ rest) = Some (w, rest)"
proof -
  have "unat w < 2 ^ 32" using unsigned_less [of w] by simp
  from arg_cong [OF le_digits [OF this], of "word_of_nat :: nat \<Rightarrow> 32 word"]
  have "(of_char (char_of (unat w)) + 2 ^ 8 * of_char (char_of (unat w div 2 ^ 8)) +
      2 ^ 16 * of_char (char_of (unat w div 2 ^ 16)) + 2 ^ 24 * of_char (char_of (unat w div 2 ^ 24)) :: 32 word) = w"
    by (simp only: of_char_word of_char_of of_nat_add of_nat_mult of_nat_power of_nat_numeral of_nat_unat unsigned_ucast_eq ucast_id)
  then show ?thesis unfolding le32_def append.simps get32.simps by simp
qed

lemma get32_short: "length s < 4 \<Longrightarrow> get32 s = None"
  by (induction s rule: get32.induct) auto

declare wal_records.simps [simp del]

text \<open>Records that the reader accepts: at most 1 MB.\<close>

abbreviation small :: "string \<Rightarrow> bool" where
  "small data \<equiv> length data \<le> 1024 * 1024"

lemma small_length:
  assumes "small data"
  shows "unat (word_of_nat (length data) :: 32 word) = length data" and "\<not> 1048576 < (word_of_nat (length data) :: 32 word)"
proof -
  show len: "unat (word_of_nat (length data) :: 32 word) = length data"
    using assms by (simp add: unat_of_nat)
  have "unat (1048576 :: 32 word) = 1048576" by code_simp
  with len assms show "\<not> 1048576 < (word_of_nat (length data) :: 32 word)"
    by (simp add: word_less_nat_alt)
qed

lemma wal_record_small: "small data \<Longrightarrow>
    wal_record data = le32 (word_of_nat (length data)) @ le32 (crc32 data) @ data"
  by (simp add: wal_record_def Let_def small_length)

text \<open>One record, whole, then corrupted, then cut short.\<close>

lemma wal_records_Cons:
  assumes "small data"
  shows "wal_records (wal_record data @ rest) = data # wal_records rest"
  using assms by (subst wal_records.simps) (simp add: wal_record_small small_length Let_def del: get32.simps)

lemma wal_records_bad:
  assumes "small data" and "crc32 data \<noteq> c"
  shows "wal_records (le32 (word_of_nat (length data)) @ le32 c @ data @ rest) = []"
  by (subst wal_records.simps) (use assms in \<open>simp add: small_length Let_def del: get32.simps\<close>)

lemma wal_records_torn:
  assumes "small data" and "k < length (wal_record data)"
  shows "wal_records (take k (wal_record data)) = []"
proof -
  let ?len = "le32 (word_of_nat (length data))" and ?crc = "le32 (crc32 data)"
  consider "k < 4" | "4 \<le> k" "k < 8" | "8 \<le> k" by linarith
  then show ?thesis
  proof cases
    case 1
    then show ?thesis by (subst wal_records.simps) (simp add: get32_short)
  next
    case 2
    then have "take k (wal_record data) = ?len @ take (k - 4) ?crc" using assms(1) by (simp add: wal_record_small)
    with 2 show ?thesis by (subst wal_records.simps) (simp add: get32_short del: get32.simps)
  next
    case 3
    then have "take k (wal_record data) = ?len @ ?crc @ take (k - 8) data" using assms(1) by (simp add: wal_record_small)
    with 3 assms show ?thesis
      by (subst wal_records.simps) (auto simp: wal_record_small small_length simp del: get32.simps)
  qed
qed

lemma wal_records_concat:
  "\<forall>d \<in> set ds. small d \<Longrightarrow> wal_records (concat (map wal_record ds) @ rest) = ds @ wal_records rest"
  by (induction ds) (auto simp: wal_records_Cons)

lemma wal_records_Nil [simp]: "wal_records [] = []"
  by (subst wal_records.simps) simp

text \<open>What follows never changes what was read before it.\<close>

lemma get32_append: "get32 s = Some (n, r) \<Longrightarrow> get32 (s @ t) = Some (n, r @ t)"
  by (induction s rule: get32.induct) auto

lemma wal_records_append: "\<exists>ds. wal_records (s @ t) = wal_records s @ ds"
proof (induction s rule: wal_records.induct)
  case (1 s)
  show ?case
  proof (cases "wal_records s")
    case (Cons d ds)
    then obtain len s1 s2 where s: "get32 s = Some (len, s1)" "get32 s1 = Some (crc32 d, s2)"
      "\<not> len > 1024 * 1024" "unat len \<le> length s2" "d = take (unat len) s2" "ds = wal_records (drop (unat len) s2)"
      by (subst (asm) wal_records.simps) (auto simp: Let_def split: option.splits if_splits)
    from 1 [OF s(1) refl s(2) refl s(3) _ s(5)] s(4,6) obtain es where
      "wal_records (drop (unat len) s2 @ t) = ds @ es" by auto
    then have "wal_records (s @ t) = d # ds @ es"
      using s by (subst wal_records.simps) (simp add: get32_append Let_def)
    with Cons show ?thesis by simp
  qed simp
qed

text \<open>A log in order: the file is a sequence of records the reader accepts.\<close>

definition wal_holds :: "wal \<Rightarrow> string list \<Rightarrow> bool" where
  "wal_holds w ds \<longleftrightarrow> wal_file w = concat (map wal_record ds) \<and> (\<forall>d \<in> set ds. small d)"

lemma wal_holds_read: "wal_holds w ds \<Longrightarrow> wal_records (wal_file w) = ds"
  using wal_records_concat [of ds "[]"] by (simp add: wal_holds_def)

subsection \<open>Properties\<close>

text \<open>C32: the table-driven checksum is the CRC-32 of the bitwise definition.\<close>

theorem crc32_is_bitwise: "crc32 data = crc32_bitwise data"
  by (simp add: crc32_def crc32_bitwise_def crc_byte_bitwise [abs_def])

text \<open>
  C28: an append is all or nothing for the reader. On a log in order that holds \<open>ds\<close>, an append of a
  record of at most 1 MB that reaches an open file whole makes it read back as \<open>ds\<close> and the record,
  and leaves it in order; one that is cut at whatever byte makes it read back as \<open>ds\<close>. The value
  returned says only whether \<open>fwrite\<close> took the record.
\<close>

theorem wal_append_all_or_nothing:
  assumes "wal_holds w ds" and "length data \<le> 1024 * 1024"
  shows "case wal_append written reached data w of (ok, w') \<Rightarrow>
    (ok \<longleftrightarrow> wal_fp w \<and> written) \<and>
    (if wal_fp w \<and> length (wal_record data) \<le> reached
     then wal_holds w' (ds @ [data]) \<and> wal_read_all True w' = ds @ [data]
     else wal_read_all True w' = ds)"
proof -
  have contents: "wal_file w = concat (map wal_record ds)" and ds: "\<forall>d \<in> set ds. small d"
    using assms(1) by (simp_all add: wal_holds_def)
  have whole: "wal_holds (w\<lparr>wal_file := wal_file w @ wal_record data, records_written := n\<rparr>) (ds @ [data])" for n
    using assms by (auto simp: wal_holds_def)
  have torn: "wal_records (wal_file w @ take reached (wal_record data)) = ds" if "reached < length (wal_record data)"
    using wal_records_concat [OF ds] wal_records_torn [OF assms(2) that] by (simp add: contents)
  show ?thesis
    using whole [of "records_written w"] whole [of "records_written w + 1"]
      wal_holds_read [OF whole [of "records_written w"]] torn wal_holds_read [OF assms(1)]
    by (simp add: wal_append_def wal_read_all_def Let_def not_le)
qed

definition ex_wal :: wal where
  "ex_wal = \<lparr>wal_fp = True, wal_file = [], records_written = 0\<rparr>"

theorem wal_append_all_or_nothing_witness:
  "wal_read_all True (snd (wal_append True 5 ''ab'' ex_wal)) = [] \<and>
   wal_read_all True (snd (wal_append True 100 ''ab'' ex_wal)) = [''ab'']"
proof -
  have "wal_holds ex_wal []" by (simp add: wal_holds_def ex_wal_def)
  note ok = wal_append_all_or_nothing [OF this, of "''ab''"]
  have "length (wal_record ''ab'') = 10" "wal_fp ex_wal" by (simp_all add: wal_record_small ex_wal_def)
  with ok [of True 5] ok [of True 100] show ?thesis by (simp add: split_beta)
qed

text \<open>
  A cut record is not undone, though: what was written stays, and a record appended after it
  is not read back, even though both appends reported success.
\<close>

lemma wal_failed_append_hides_later:
  "case wal_append True 3 ''ab'' ex_wal of (ok1, w1) \<Rightarrow> (case wal_append True 100 ''cd'' w1 of (ok2, w2) \<Rightarrow>
     ok1 \<and> ok2 \<and> wal_read_all True w2 = [])"
proof -
  have two: "le32 2 = [CHR 0x02, CHR 0x00, CHR 0x00, CHR 0x00]" by code_simp
  have "wal_records (CHR 0x02 # CHR 0x00 # CHR 0x00 # CHR 0x02 # s) = []" for s
    by (subst wal_records.simps) (auto split: option.split)
  then show ?thesis
    by (simp add: wal_append_def wal_record_small ex_wal_def Let_def wal_read_all_def two)
qed

text \<open>
  A changed byte in the data of a record is noticed: the reader gives the records before it and
  stops, whatever follows.
\<close>

theorem wal_detects_changed_byte:
  assumes "\<forall>d \<in> set ds. length d \<le> 1024 * 1024" and "length (xs @ b # ys) \<le> 1024 * 1024" and "b \<noteq> b'"
    and "wal_file w = concat (map wal_record ds) @
      le32 (word_of_nat (length (xs @ b # ys))) @ le32 (crc32 (xs @ b # ys)) @ (xs @ b' # ys) @ rest"
  shows "wal_read_all True w = ds"
proof -
  have "wal_records (le32 (word_of_nat (length (xs @ b' # ys))) @ le32 (crc32 (xs @ b # ys)) @ (xs @ b' # ys) @ rest) = []"
    by (rule wal_records_bad) (use assms(2,3) crc32_changed_byte in auto)
  with assms(1,4) show ?thesis by (simp add: wal_read_all_def wal_records_concat)
qed

theorem wal_detects_changed_byte_witness:
  "wal_read_all True (ex_wal\<lparr>wal_file := wal_record ''ab'' @ le32 2 @ le32 (crc32 ''cd'') @ ''ce'' @ wal_record ''ef''\<rparr>) = [''ab'']"
proof -
  have two: "(word_of_nat (length (''c'' @ CHR ''d'' # [])) :: 32 word) = 2" by simp
  show ?thesis
    by (rule wal_detects_changed_byte [of "[''ab'']" "''c''" "CHR ''d''" "[]" "CHR ''e''" _ "wal_record ''ef''"])
      (simp_all add: two)
qed

end
