(* ===== verification/AgentConfig.thy ===== *)
theory AgentConfig
  imports Prelude Complex_Main "HOL-Library.Word"
begin

text \<open>
  The configuration of the agent (\<open>src/config.cpp\<close>, \<open>include/config.h\<close>): the record of settings with its
  defaults, and \<open>Config::load\<close> over a parsed TOML document. The parser is a parameter: it gives the
  document or fails. The conversions \<open>node::value_or\<close> of the vendored header are written out for
  the two types the reader asks for, strings and 64-bit unsigned integers.
\<close>

subsection \<open>TOML values\<close>

text \<open>
  A float is its exact value, \<open>None\<close> for an infinity or NaN. \<open>Toml_other\<close> stands for arrays, dates and
  times, which no setting accepts.
\<close>

datatype toml = Toml_str string | Toml_int int | Toml_float "rat option" | Toml_bool bool
  | Toml_table "(string \<times> toml) list" | Toml_other

definition int64 :: "int \<Rightarrow> bool" where
  "int64 n \<longleftrightarrow> - (2 ^ 63) \<le> n \<and> n < 2 ^ 63"

text \<open>\<open>tbl[key].as_table()\<close> and \<open>table->get(key)\<close>.\<close>

definition as_table :: "(string \<times> toml) list \<Rightarrow> string \<Rightarrow> (string \<times> toml) list option" where
  "as_table doc key = (case map_of doc key of Some (Toml_table t) \<Rightarrow> Some t | _ \<Rightarrow> None)"

definition value_or_str :: "toml \<Rightarrow> string \<Rightarrow> string" where
  "value_or_str v dflt = (case v of Toml_str s \<Rightarrow> s | _ \<Rightarrow> dflt)"

text \<open>\<open>node_integer_cast<uint64_t>\<close>: a negative number does not fit.\<close>

definition node_integer_cast :: "int \<Rightarrow> 64 word option" where
  "node_integer_cast n = (if n < 0 then None else Some (word_of_int n))"

definition value_u64 :: "toml \<Rightarrow> 64 word option" where
  "value_u64 v = (case v of
     Toml_int n \<Rightarrow> node_integer_cast n
   | Toml_float (Some x) \<Rightarrow> if x = of_int \<lfloor>x\<rfloor> \<and> int64 \<lfloor>x\<rfloor> then node_integer_cast \<lfloor>x\<rfloor> else None
   | Toml_bool b \<Rightarrow> Some (if b then 1 else 0)
   | _ \<Rightarrow> None)"

definition value_or_u64 :: "toml \<Rightarrow> 64 word \<Rightarrow> 64 word" where
  "value_or_u64 v dflt = (case value_u64 v of Some n \<Rightarrow> n | None \<Rightarrow> dflt)"

subsection \<open>Config\<close>

record agent_config =
  kafka_brokers :: string
  kafka_topic :: string
  debounce_quiet_ms :: "64 word"
  debounce_max_wait_ms :: "64 word"
  wal_path :: string
  wal_max_size_mb :: "64 word"
  cfg_watch_prefix :: string
  log_level :: string

definition default_config :: agent_config where
  "default_config = \<lparr>kafka_brokers = ''localhost:9092'', kafka_topic = ''file-tracker-events'',
     debounce_quiet_ms = 10000, debounce_max_wait_ms = 3600000,
     wal_path = ''/var/lib/file-tracker/wal/events.wal'', wal_max_size_mb = 1024,
     cfg_watch_prefix = ''/home'', log_level = ''info''\<rparr>"

text \<open>One \<open>if (auto v = table->get(key)) field = v->value_or(field)\<close>, for each of the two types.\<close>

definition str_setting :: "(string \<times> toml) list option \<Rightarrow> string \<Rightarrow> string \<Rightarrow> string" where
  "str_setting table key dflt = (case table of None \<Rightarrow> dflt
     | Some t \<Rightarrow> (case map_of t key of None \<Rightarrow> dflt | Some v \<Rightarrow> value_or_str v dflt))"

definition u64_setting :: "(string \<times> toml) list option \<Rightarrow> string \<Rightarrow> 64 word \<Rightarrow> 64 word" where
  "u64_setting table key dflt = (case table of None \<Rightarrow> dflt
     | Some t \<Rightarrow> (case map_of t key of None \<Rightarrow> dflt | Some v \<Rightarrow> value_or_u64 v dflt))"

definition config_load :: "(string \<times> toml) list option \<Rightarrow> agent_config \<Rightarrow> bool \<times> agent_config" where
  "config_load parsed c = (case parsed of None \<Rightarrow> (False, c) | Some tbl \<Rightarrow>
     let kafka = as_table tbl ''kafka''; db = as_table tbl ''debounce''; w = as_table tbl ''wal'';
         watch = as_table tbl ''watch''; l = as_table tbl ''logging'' in
     (True, c\<lparr>
       kafka_brokers := str_setting kafka ''brokers'' (kafka_brokers c),
       kafka_topic := str_setting kafka ''topic'' (kafka_topic c),
       debounce_quiet_ms := u64_setting db ''quiet_ms'' (debounce_quiet_ms c),
       debounce_max_wait_ms := u64_setting db ''max_wait_ms'' (debounce_max_wait_ms c),
       wal_path := str_setting w ''path'' (wal_path c),
       wal_max_size_mb := u64_setting w ''max_size_mb'' (wal_max_size_mb c),
       cfg_watch_prefix := str_setting watch ''prefix'' (cfg_watch_prefix c),
       log_level := str_setting l ''level'' (log_level c)\<rparr>))"

text \<open>\<open>uint64_t wal_max_bytes = cfg.wal_max_size_mb * 1024ULL * 1024ULL\<close>.\<close>

definition wal_max_bytes :: "agent_config \<Rightarrow> 64 word" where
  "wal_max_bytes c = wal_max_size_mb c * 1024 * 1024"

subsection \<open>Settings stay in range\<close>

text \<open>A TOML document: its integers have 64 bits.\<close>

fun toml_ok :: "toml \<Rightarrow> bool" where
  "toml_ok (Toml_int n) = int64 n"
| "toml_ok (Toml_table t) = (\<forall>(k, v) \<in> set t. toml_ok v)"
| "toml_ok _ = True"

text \<open>A number that is the same read as signed: it survives the conversion to \<open>std::chrono::milliseconds\<close>.\<close>

abbreviation signed_ok :: "64 word \<Rightarrow> bool" where
  "signed_ok n \<equiv> uint n < 2 ^ 63"

lemma signed_ok_sint: "signed_ok n \<Longrightarrow> sint n = uint n"
proof -
  assume "signed_ok n"
  then have "signed_take_bit 63 (uint n) = uint n"
    by (intro signed_take_bit_int_eq_self) (simp_all add: order_trans [OF _ uint_ge_0])
  then show ?thesis by (simp add: sint_uint)
qed

lemma signed_ok_cast: "int64 n \<Longrightarrow> node_integer_cast n = Some w \<Longrightarrow> signed_ok w \<and> uint w = n"
  by (auto simp: node_integer_cast_def int64_def take_bit_int_eq_self unsigned_of_int split: if_splits)

lemma signed_ok_value: "toml_ok v \<Longrightarrow> value_u64 v = Some w \<Longrightarrow> signed_ok w"
  by (auto simp: value_u64_def dest: signed_ok_cast split: toml.splits option.splits if_splits)

lemma toml_ok_lookup: "toml_ok (Toml_table t) \<Longrightarrow> map_of t k = Some v \<Longrightarrow> toml_ok v"
  by (auto dest: map_of_SomeD)

lemma toml_ok_as_table: "toml_ok (Toml_table doc) \<Longrightarrow> as_table doc key = Some t \<Longrightarrow> toml_ok (Toml_table t)"
  using toml_ok_lookup [of doc key "Toml_table t"]
  by (auto simp: as_table_def split: option.splits toml.splits)

lemma u64_setting_ok:
  assumes "toml_ok (Toml_table doc)" and "signed_ok dflt"
  shows "signed_ok (u64_setting (as_table doc table) key dflt)"
proof (cases "as_table doc table")
  case (Some t)
  have "signed_ok (value_or_u64 v dflt)" if "map_of t key = Some v" for v
    using signed_ok_value [OF toml_ok_lookup [OF toml_ok_as_table [OF assms(1) Some] that]] assms(2)
    by (cases "value_u64 v") (simp_all add: value_or_u64_def)
  with Some assms(2) show ?thesis by (simp add: u64_setting_def split: option.split)
qed (use assms(2) in \<open>simp add: u64_setting_def\<close>)

lemma wal_max_bytes_exact: "uint (wal_max_bytes c) = uint (wal_max_size_mb c) * 2 ^ 20 \<longleftrightarrow> uint (wal_max_size_mb c) < 2 ^ 44"
proof -
  have "wal_max_bytes c = word_of_int (uint (wal_max_size_mb c) * 2 ^ 20)"
    by (simp add: wal_max_bytes_def)
  then have "uint (wal_max_bytes c) = uint (wal_max_size_mb c) * 2 ^ 20 mod 2 ^ 64"
    by (simp only: uint_word_of_int) (simp add: take_bit_eq_mod)
  moreover have "x mod 2 ^ 64 = x \<longleftrightarrow> x < 2 ^ 64" if "0 \<le> x" for x :: int
    using that by (auto simp: mod_pos_pos_trivial)
  ultimately show ?thesis by simp
qed

subsection \<open>Property\<close>

text \<open>
  C29: the settings of the agent stay in range. Whatever a well-formed TOML file holds (missing tables,
  values of another type, negative numbers), loading succeeds, the two debounce times are not negative
  after the conversion to signed milliseconds and keep their value, and the size limit of the log is the
  configured number of megabytes exactly when that number is below \<open>2 ^ 44\<close>; from there on the
  multiplication wraps around. A file that cannot be parsed leaves the defaults and is reported.
\<close>

theorem config_in_range:
  assumes "toml_ok (Toml_table doc)"
  shows "(case config_load (Some doc) default_config of (ok, c) \<Rightarrow>
      ok \<and> sint (debounce_quiet_ms c) = uint (debounce_quiet_ms c) \<and> 0 \<le> sint (debounce_quiet_ms c) \<and>
      sint (debounce_max_wait_ms c) = uint (debounce_max_wait_ms c) \<and> 0 \<le> sint (debounce_max_wait_ms c) \<and>
      (uint (wal_max_bytes c) = uint (wal_max_size_mb c) * 2 ^ 20 \<longleftrightarrow> uint (wal_max_size_mb c) < 2 ^ 44)) \<and>
    config_load None default_config = (False, default_config)"
proof -
  obtain c where c: "config_load (Some doc) default_config = (True, c)"
    by (simp add: config_load_def Let_def)
  have "signed_ok (debounce_quiet_ms default_config)" "signed_ok (debounce_max_wait_ms default_config)"
    by (simp_all add: default_config_def)
  from u64_setting_ok [OF assms this(1)] u64_setting_ok [OF assms this(2)] c
  have "signed_ok (debounce_quiet_ms c)" "signed_ok (debounce_max_wait_ms c)"
    by (auto simp: config_load_def Let_def)
  then show ?thesis
    by (simp only: c prod.case signed_ok_sint wal_max_bytes_exact) (simp add: config_load_def)
qed

definition ex_toml :: "(string \<times> toml) list" where
  "ex_toml = [(''debounce'', Toml_table [(''quiet_ms'', Toml_int (- 5)), (''max_wait_ms'', Toml_int 60000)]),
     (''wal'', Toml_table [(''max_size_mb'', Toml_int (2 ^ 44))])]"

theorem config_in_range_witness:
  "case config_load (Some ex_toml) default_config of (ok, c) \<Rightarrow>
     ok \<and> debounce_quiet_ms c = 10000 \<and> sint (debounce_max_wait_ms c) = 60000 \<and>
     uint (wal_max_bytes c) \<noteq> uint (wal_max_size_mb c) * 2 ^ 20 \<and> wal_max_bytes c = 0"
proof -
  have "toml_ok (Toml_table ex_toml)" by (simp add: ex_toml_def int64_def)
  note range = conjunct1 [OF config_in_range [OF this]]
  obtain ok c where load: "config_load (Some ex_toml) default_config = (ok, c)" by (cases "config_load (Some ex_toml) default_config")
  then have c: "debounce_quiet_ms c = 10000" "debounce_max_wait_ms c = 60000" "wal_max_size_mb c = 2 ^ 44"
    by (auto simp: config_load_def ex_toml_def as_table_def u64_setting_def value_or_u64_def value_u64_def
        node_integer_cast_def default_config_def)
  have "wal_max_bytes c = 0" by (simp add: wal_max_bytes_def c)
  with range load c show ?thesis by simp
qed

end
