(* ===== verification/AgentMain.thy ===== *)
theory AgentMain
  imports Agent Debouncer Wal AgentConfig
begin

text \<open>
  The agent as a program: \<open>KafkaProducer\<close> (\<open>src/kafka_producer.cpp\<close>) and \<open>main\<close> (\<open>src/main.cpp\<close>) with its callbacks,
  the replay of the write-ahead log, the main loop and the shutdown. librdkafka, libbpf, the TOML
  parser, the clocks and the outcomes of file operations are parameters: records of calls on an
  outside world. The computations are those of \<open>Prelude\<close>; none of them raises. Delivery reports are the
  list that \<open>rd_kafka_poll\<close> or \<open>rd_kafka_flush\<close> serves; the callback never calls back into librdkafka, so serving them
  after the call is the same. Steady time is in nanoseconds. Log lines are left out.
\<close>

subsection \<open>Parameters\<close>

record delivery_report =
  rep_err :: bool
  rep_json :: string

record 'w rdkafka =
  rd_conf_set :: "string \<Rightarrow> string \<Rightarrow> ('w, bool) py"
  rd_kafka_new :: "('w, bool) py"
  rd_topic_new :: "string \<Rightarrow> ('w, bool) py"
  rd_produce :: "string \<Rightarrow> string \<Rightarrow> ('w, bool) py"
  rd_poll :: "int \<Rightarrow> ('w, delivery_report list) py"
  rd_flush :: "int \<Rightarrow> ('w, delivery_report list) py"
  rd_destroy :: "('w, unit) py"

text \<open>
  \<open>fs_fwrite\<close> gives what \<open>wal_append\<close> needs to know, \<open>fs_clear\<close> whether the file was emptied and
  reopened; \<open>ring_buffer_poll\<close> gives the events it hands to the callback, and the result.
\<close>

record 'w agent_os =
  parse_file :: "string \<Rightarrow> ('w, (string \<times> toml) list option) py"
  os_gethostname :: "('w, string option) py"
  os_mkdir :: "string \<Rightarrow> ('w, unit) py"
  system_ms :: "('w, int) py"
  steady_ns :: "('w, int) py"
  sig_running :: "('w, bool) py"
  fs_open :: "('w, bool) py"
  fs_fwrite :: "string \<Rightarrow> ('w, bool \<times> nat) py"
  fs_readable :: "('w, bool) py"
  fs_clear :: "('w, bool \<times> bool) py"
  fs_stat :: "('w, bool) py"
  bpf_open_and_load :: "('w, bool) py"
  bpf_attach :: "('w, int) py"
  ring_buffer_new :: "('w, bool) py"
  ring_buffer_poll :: "int \<Rightarrow> ('w, file_event list \<times> int) py"
  ring_buffer_free :: "('w, unit) py"
  bpf_destroy :: "('w, unit) py"
  percpu_counter :: "nat \<Rightarrow> ('w, 64 word) py"

subsection \<open>State\<close>

text \<open>
  The variables of \<open>main\<close> and the object of the producer. The last two components are the history, which the
  program does not keep: \<open>trace\<close> the events handled and the messages built, in order, and \<open>lost\<close> the
  messages that were given up and why, because the log had reached its limit or because what was
  written cannot be read back.
\<close>

datatype happening = Got file_event | Made string
datatype loss = Over_limit | Unreadable

record 'w agent =
  outside :: 'w
  ag_hostname :: string
  ag_limit :: "64 word"
  ag_wal :: wal
  rk_ptr :: bool
  rkt_ptr :: bool
  ectx :: event_ctx
  kafka_sent :: "64 word"
  kafka_failed :: "64 word"
  wal_replayed :: "64 word"
  prev_drops :: "64 word"
  last_stats :: int
  last_wal_retry :: int
  trace :: "happening list"
  lost :: "(loss \<times> string) list"

definition built :: "'w agent \<Rightarrow> string list" where
  "built s = concat (map (\<lambda>t. case t of Got _ \<Rightarrow> [] | Made json \<Rightarrow> [json]) (trace s))"

definition call :: "('w, 'a) py \<Rightarrow> ('w agent, 'a) py" where
  "call m = (\<lambda>s. Option.bind (m (outside s)) (\<lambda>(r, w). Some (r, s\<lparr>outside := w\<rparr>)))"

lemma wp_call [wp_rules]:
  "wp d (call m) Q E s = wp d m (\<lambda>x w. Q x (s\<lparr>outside := w\<rparr>)) (\<lambda>e w. E e (s\<lparr>outside := w\<rparr>)) (outside s)"
  by (auto simp: wp_def call_def split: option.split sum.split)

subsection \<open>The failure callback\<close>

definition wal_appended :: "bool \<Rightarrow> nat \<Rightarrow> string \<Rightarrow> 'w agent \<Rightarrow> 'w agent" where
  "wal_appended written reached json s =
     (let w = snd (wal_append written reached json (ag_wal s)) in
      s\<lparr>ag_wal := w, lost := lost s @
        (if wal_records (wal_file w) = wal_records (wal_file (ag_wal s)) @ [json] then [] else [(Unreadable, json)])\<rparr>)"

definition append_json :: "'w agent_os \<Rightarrow> string \<Rightarrow> ('w agent, unit) py" where
  "append_json OS json =
     bind_py (get_py (\<lambda>s. wal_fp (ag_wal s))) (\<lambda>fp.
     if \<not> fp then modify_py (wal_appended False 0 json)
     else bind_py (call (fs_fwrite OS (wal_record json))) (\<lambda>(written, reached).
       modify_py (wal_appended written reached json)))"

definition on_fail :: "'w agent_os \<Rightarrow> string \<Rightarrow> ('w agent, unit) py" where
  "on_fail OS json =
     seq_py (modify_py (\<lambda>s. s\<lparr>kafka_failed := kafka_failed s + 1\<rparr>))
     (bind_py (call (fs_stat OS)) (\<lambda>stat_ok.
      bind_py (get_py (\<lambda>s. wal_file_size stat_ok (ag_wal s) < ag_limit s)) (\<lambda>fits.
      if fits then append_json OS json
      else modify_py (\<lambda>s. s\<lparr>lost := lost s @ [(Over_limit, json)]\<rparr>))))"

subsection \<open>KafkaProducer\<close>

definition set_rk :: "bool \<Rightarrow> bool \<Rightarrow> ('w agent, unit) py" where
  "set_rk rk rkt = modify_py (\<lambda>s. s\<lparr>rk_ptr := rk, rkt_ptr := rkt\<rparr>)"

definition conf_settings :: "(string \<times> string) list" where
  "conf_settings = [(''compression.type'', ''lz4''), (''batch.num.messages'', ''1000''), (''linger.ms'', ''100''),
     (''message.timeout.ms'', ''10000''), (''socket.timeout.ms'', ''5000''), (''log_level'', ''0'')]"

definition kafka_create :: "'w rdkafka \<Rightarrow> string \<Rightarrow> string \<Rightarrow> ('w agent, unit) py" where
  "kafka_create K brokers topic =
     bind_py (call (rd_conf_set K ''bootstrap.servers'' brokers)) (\<lambda>ok.
     if \<not> ok then set_rk False False
     else seq_py (for_py conf_settings (\<lambda>(key, val). bind_py (call (rd_conf_set K key val)) (\<lambda>_. return_py ())))
       (bind_py (call (rd_kafka_new K)) (\<lambda>rk.
        if \<not> rk then set_rk False False
        else bind_py (call (rd_topic_new K topic)) (\<lambda>rkt.
          if \<not> rkt then seq_py (call (rd_destroy K)) (set_rk False False)
          else set_rk True True))))"

definition kafka_send :: "'w rdkafka \<Rightarrow> 'w agent_os \<Rightarrow> string \<Rightarrow> string \<Rightarrow> ('w agent, bool) py" where
  "kafka_send K OS json key =
     bind_py (get_py (\<lambda>s. rk_ptr s \<and> rkt_ptr s)) (\<lambda>ready.
     if \<not> ready then seq_py (on_fail OS json) (return_py False)
     else bind_py (call (rd_produce K json key)) (\<lambda>queued.
       if \<not> queued then seq_py (on_fail OS json) (return_py False)
       else return_py True))"

definition dr_msg_cb :: "'w agent_os \<Rightarrow> delivery_report \<Rightarrow> ('w agent, unit) py" where
  "dr_msg_cb OS rep = (if rep_err rep then on_fail OS (rep_json rep) else return_py ())"

definition kafka_poll :: "'w rdkafka \<Rightarrow> 'w agent_os \<Rightarrow> int \<Rightarrow> ('w agent, unit) py" where
  "kafka_poll K OS timeout_ms =
     bind_py (get_py rk_ptr) (\<lambda>rk.
     if rk then bind_py (call (rd_poll K timeout_ms)) (\<lambda>reps. for_py reps (dr_msg_cb OS)) else return_py ())"

definition kafka_flush :: "'w rdkafka \<Rightarrow> 'w agent_os \<Rightarrow> int \<Rightarrow> ('w agent, unit) py" where
  "kafka_flush K OS timeout_ms =
     bind_py (get_py rk_ptr) (\<lambda>rk.
     if rk then bind_py (call (rd_flush K timeout_ms)) (\<lambda>reps. for_py reps (dr_msg_cb OS)) else return_py ())"

text \<open>\<open>~KafkaProducer\<close>.\<close>

definition kafka_delete :: "'w rdkafka \<Rightarrow> 'w agent_os \<Rightarrow> ('w agent, unit) py" where
  "kafka_delete K OS =
     bind_py (get_py rk_ptr) (\<lambda>rk.
     if rk then bind_py (call (rd_flush K 15000)) (\<lambda>reps.
       seq_py (for_py reps (dr_msg_cb OS)) (call (rd_destroy K)))
     else return_py ())"

subsection \<open>Events\<close>

text \<open>Building a message, handing it to Kafka, counting.\<close>

definition send_new :: "'w rdkafka \<Rightarrow> 'w agent_os \<Rightarrow> (int \<Rightarrow> string \<Rightarrow> string) \<Rightarrow> ('w agent, unit) py" where
  "send_new K OS build =
     bind_py (call (system_ms OS)) (\<lambda>ts_ms.
     bind_py (get_py ag_hostname) (\<lambda>hostname.
     let json = build ts_ms hostname in
     seq_py (modify_py (\<lambda>s. s\<lparr>trace := trace s @ [Made json]\<rparr>))
     (bind_py (kafka_send K OS json hostname) (\<lambda>ok.
      if ok then modify_py (\<lambda>s. s\<lparr>kafka_sent := kafka_sent s + 1\<rparr>) else return_py ()))))"

definition type_str :: "nat \<Rightarrow> string" where
  "type_str ev = (if ev = EVENT_DELETE then ''delete'' else ''mtime_change'')"

definition send_event :: "'w rdkafka \<Rightarrow> 'w agent_os \<Rightarrow> string \<Rightarrow> nat \<Rightarrow> ('w agent, unit) py" where
  "send_event K OS path ev =
     send_new K OS (\<lambda>ts_ms hostname. build_json ts_ms (type_str ev) path hostname)"

definition on_rename :: "'w rdkafka \<Rightarrow> 'w agent_os \<Rightarrow> string \<Rightarrow> string \<Rightarrow> ('w agent, unit) py" where
  "on_rename K OS old_path new_path =
     send_new K OS (\<lambda>ts_ms hostname. rename_json ts_ms old_path new_path hostname)"

fun pass_on :: "'w rdkafka \<Rightarrow> 'w agent_os \<Rightarrow> sent \<Rightarrow> ('w agent, unit) py" where
  "pass_on K OS (Renamed old new) = on_rename K OS old new"
| "pass_on K OS (Fired path ev) = send_event K OS path ev"

definition run_handler :: "'w rdkafka \<Rightarrow> 'w agent_os \<Rightarrow> file_event \<Rightarrow> ('w agent, unit) py" where
  "run_handler K OS evt =
     bind_py (call (steady_ns OS)) (\<lambda>now.
     bind_py (get_py (\<lambda>s. handle_event now evt (ectx s))) (\<lambda>(out, ctx).
     seq_py (modify_py (\<lambda>s. s\<lparr>ectx := ctx, trace := trace s @ [Got evt]\<rparr>)) (for_py out (pass_on K OS))))"

text \<open>\<open>debouncer.tick()\<close> and \<open>debouncer.flush_all()\<close>, with the callback.\<close>

definition fire :: "'w rdkafka \<Rightarrow> 'w agent_os \<Rightarrow> fired \<times> debouncer \<Rightarrow> ('w agent, unit) py" where
  "fire K OS = (\<lambda>(out, d).
     seq_py (modify_py (\<lambda>s. s\<lparr>ectx := (ectx s)\<lparr>ctx_debouncer := d\<rparr>\<rparr>))
       (for_py out (\<lambda>(path, ev). send_event K OS path ev)))"

definition run_tick :: "'w rdkafka \<Rightarrow> 'w agent_os \<Rightarrow> ('w agent, unit) py" where
  "run_tick K OS =
     bind_py (call (steady_ns OS)) (\<lambda>now.
     bind_py (get_py (\<lambda>s. tick now (ctx_debouncer (ectx s)))) (fire K OS))"

definition run_flush_all :: "'w rdkafka \<Rightarrow> 'w agent_os \<Rightarrow> ('w agent, unit) py" where
  "run_flush_all K OS = bind_py (get_py (\<lambda>s. flush_all (ctx_debouncer (ectx s)))) (fire K OS)"

subsection \<open>The write-ahead log, sent again\<close>

definition truncate_log :: "'w agent_os \<Rightarrow> ('w agent, unit) py" where
  "truncate_log OS =
     bind_py (call (fs_clear OS)) (\<lambda>(cleared, reopened).
     modify_py (\<lambda>s. s\<lparr>ag_wal := wal_truncate cleared reopened (ag_wal s)\<rparr>))"

definition resend :: "'w rdkafka \<Rightarrow> 'w agent_os \<Rightarrow> string \<Rightarrow> ('w agent, unit) py" where
  "resend K OS json =
     bind_py (get_py ag_hostname) (\<lambda>hostname.
     bind_py (kafka_send K OS json hostname) (\<lambda>_.
     modify_py (\<lambda>s. s\<lparr>wal_replayed := wal_replayed s + 1\<rparr>)))"

definition replay_wal :: "'w rdkafka \<Rightarrow> 'w agent_os \<Rightarrow> int \<Rightarrow> ('w agent, unit) py" where
  "replay_wal K OS timeout_ms =
     bind_py (call (fs_readable OS)) (\<lambda>readable.
     bind_py (get_py (\<lambda>s. wal_read_all readable (ag_wal s))) (\<lambda>records.
     if records \<noteq> [] then seq_py (truncate_log OS) (seq_py (for_py records (resend K OS)) (kafka_flush K OS timeout_ms))
     else return_py ()))"

subsection \<open>The main loop\<close>

text \<open>Intervals in nanoseconds.\<close>

definition seconds :: "int \<Rightarrow> int" where "seconds n = n * 1000000000"
definition millis :: "64 word \<Rightarrow> int" where "millis n = sint n * 1000000"

definition periodic_stats :: "'w agent_os \<Rightarrow> int \<Rightarrow> ('w agent, unit) py" where
  "periodic_stats OS now =
     bind_py (get_py last_stats) (\<lambda>last.
     if now - last \<ge> seconds 60 then
       seq_py (modify_py (\<lambda>s. s\<lparr>last_stats := now\<rparr>))
       (bind_py (call (percpu_counter OS 1)) (\<lambda>total_events.
        bind_py (call (percpu_counter OS 0)) (\<lambda>total_drops.
        bind_py (call (percpu_counter OS 2)) (\<lambda>total_dedup.
        seq_py (modify_py (\<lambda>s. s\<lparr>prev_drops := total_drops\<rparr>))
        (bind_py (call (fs_stat OS)) (\<lambda>_. return_py ()))))))
     else return_py ())"

definition wal_retry :: "'w rdkafka \<Rightarrow> 'w agent_os \<Rightarrow> int \<Rightarrow> ('w agent, unit) py" where
  "wal_retry K OS now =
     bind_py (get_py last_wal_retry) (\<lambda>last.
     if now - last \<ge> seconds 30 then
       seq_py (modify_py (\<lambda>s. s\<lparr>last_wal_retry := now\<rparr>))
       (bind_py (call (fs_stat OS)) (\<lambda>stat_ok.
        bind_py (get_py (\<lambda>s. wal_file_size stat_ok (ag_wal s) > 0)) (\<lambda>some.
        if some then replay_wal K OS 5000 else return_py ())))
     else return_py ())"

text \<open>One turn: \<open>False\<close> for a \<open>break\<close>.\<close>

definition agent_iter :: "'w rdkafka \<Rightarrow> 'w agent_os \<Rightarrow> ('w agent, bool) py" where
  "agent_iter K OS =
     bind_py (call (ring_buffer_poll OS 100)) (\<lambda>(evts, err).
     seq_py (for_py evts (run_handler K OS))
     (if err < 0 then return_py False
      else seq_py (run_tick K OS)
        (seq_py (kafka_poll K OS 0)
        (bind_py (call (steady_ns OS)) (\<lambda>now.
         seq_py (periodic_stats OS now) (seq_py (wal_retry K OS now) (return_py True)))))))"

definition agent_loop :: "'w rdkafka \<Rightarrow> 'w agent_os \<Rightarrow> ('w agent, unit) py" where
  "agent_loop K OS = loop_py (\<lambda>_ :: unit. bind_py (call (sig_running OS)) (\<lambda>running.
     if running then bind_py (agent_iter K OS) (\<lambda>go_on. return_py (if go_on then Inl () else Inr ()))
     else return_py (Inr ()))) ()"

text \<open>The statistics at the end: read and logged.\<close>

definition final_stats :: "'w agent_os \<Rightarrow> ('w agent, unit) py" where
  "final_stats OS =
     bind_py (call (percpu_counter OS 1)) (\<lambda>total_events.
     bind_py (call (percpu_counter OS 0)) (\<lambda>total_drops.
     bind_py (call (percpu_counter OS 2)) (\<lambda>total_dedup.
     bind_py (call (fs_stat OS)) (\<lambda>_. return_py ()))))"

definition agent_shutdown :: "'w rdkafka \<Rightarrow> 'w agent_os \<Rightarrow> ('w agent, unit) py" where
  "agent_shutdown K OS =
     seq_py (run_flush_all K OS)
     (seq_py (final_stats OS)
     (seq_py (kafka_flush K OS 15000)
     (seq_py (call (ring_buffer_free OS)) (call (bpf_destroy OS)))))"

subsection \<open>main\<close>

definition get_hostname :: "'w agent_os \<Rightarrow> ('w agent, string) py" where
  "get_hostname OS = bind_py (call (os_gethostname OS)) (\<lambda>name.
     return_py (case name of Some buf \<Rightarrow> takeWhile (\<lambda>c. c \<noteq> CHR 0x00) (take 255 buf) | None \<Rightarrow> ''unknown''))"

text \<open>\<open>path.substr(0, path.rfind('/'))\<close>: the whole path when there is no slash.\<close>

definition dir_of :: "string \<Rightarrow> string" where
  "dir_of path = (if CHR ''/'' \<in> set path then rev (tl (dropWhile (\<lambda>c. c \<noteq> CHR ''/'') (rev path))) else path)"

text \<open>The arguments of \<open>mkdir\<close>: every prefix that ends in a slash, and the directory itself.\<close>

definition mkdir_args :: "string \<Rightarrow> string list" where
  "mkdir_args dir = map (\<lambda>i. take (Suc i) dir)
     (filter (\<lambda>i. dir ! i = CHR ''/'' \<or> i = length dir - 1) [0..<length dir])"

definition start_state :: "agent_config \<Rightarrow> string \<Rightarrow> 'w agent \<Rightarrow> 'w agent" where
  "start_state cfg hostname s = s\<lparr>ag_hostname := hostname, ag_limit := wal_max_bytes cfg,
     ectx := \<lparr>ctx_debouncer = \<lparr>quiet_period = millis (debounce_quiet_ms cfg), max_wait = millis (debounce_max_wait_ms cfg), entries = []\<rparr>,
       watch_prefix = cfg_watch_prefix cfg, pending_rename_from = [], has_pending_rename = False\<rparr>,
     kafka_sent := 0, kafka_failed := 0, wal_replayed := 0, prev_drops := 0\<rparr>"

definition run_agent :: "'w rdkafka \<Rightarrow> 'w agent_os \<Rightarrow> ('w agent, unit) py" where
  "run_agent K OS =
     seq_py (replay_wal K OS 10000)
     (bind_py (call (steady_ns OS)) (\<lambda>t1.
      bind_py (call (steady_ns OS)) (\<lambda>t2.
      seq_py (modify_py (\<lambda>s. s\<lparr>last_wal_retry := t1, last_stats := t2\<rparr>))
      (seq_py (agent_loop K OS) (agent_shutdown K OS)))))"

text \<open>From the check of the connection on; the status \<open>main\<close> returns.\<close>

definition attach_and_run :: "'w rdkafka \<Rightarrow> 'w agent_os \<Rightarrow> ('w agent, int) py" where
  "attach_and_run K OS =
     bind_py (get_py rk_ptr) (\<lambda>connected.
     if \<not> connected then return_py 1
     else bind_py (call (bpf_open_and_load OS)) (\<lambda>skel.
       if \<not> skel then return_py 1
       else bind_py (call (bpf_attach OS)) (\<lambda>err.
         if err \<noteq> 0 then seq_py (call (bpf_destroy OS)) (return_py 1)
         else bind_py (call (ring_buffer_new OS)) (\<lambda>rb.
           if \<not> rb then seq_py (call (bpf_destroy OS)) (return_py 1)
           else seq_py (run_agent K OS) (return_py 0)))))"

definition agent_main :: "'w rdkafka \<Rightarrow> 'w agent_os \<Rightarrow> string list \<Rightarrow> ('w agent, int) py" where
  "agent_main K OS argv =
     (let config_path = (case argv of _ # path # _ \<Rightarrow> path | _ \<Rightarrow> ''/etc/file-tracker/config.toml'') in
      bind_py (call (parse_file OS config_path)) (\<lambda>parsed.
      let (loaded, cfg) = config_load parsed default_config in
      if \<not> loaded then return_py 1
      else bind_py (get_hostname OS) (\<lambda>hostname.
        seq_py (modify_py (start_state cfg hostname))
        (seq_py (for_py (mkdir_args (dir_of (wal_path cfg))) (\<lambda>dir. call (os_mkdir OS dir)))
        (bind_py (call (fs_open OS)) (\<lambda>opened.
         seq_py (modify_py (\<lambda>s. s\<lparr>ag_wal := wal_open opened (ag_wal s)\<rparr>))
         (seq_py (kafka_create K (kafka_brokers cfg) (kafka_topic cfg))
         (bind_py (attach_and_run K OS) (\<lambda>status.
          seq_py (kafka_delete K OS) (return_py status))))))))))"

end
