(* ===== verification/Probe.thy ===== *)
theory Probe
  imports Debouncer
begin

text \<open>
  The kernel side of the agent (\<open>src/bpf/probe.bpf.c\<close>): the five kprobes, the walk along the dentry
  chain that collects the components of a path, the suppression of repeated writes, the counters and the ring
  buffer; and \<open>read_percpu_counter\<close> of \<open>src/main.cpp\<close>, which reads the counters. The clock, the number of the
  CPU, whether the ring buffer has room and what the LRU map evicts are arguments. A map lookup that
  finds nothing is \<open>None\<close>. A program runs on one CPU from its start to its end.
\<close>

subsection \<open>Kernel objects and maps\<close>

definition MAX_DEPTH :: nat where "MAX_DEPTH = 20"
definition MAX_NAME_LEN :: nat where "MAX_NAME_LEN = 256"
definition CTR_DROPS :: nat where "CTR_DROPS = 0"
definition CTR_TOTAL :: nat where "CTR_TOTAL = 1"
definition CTR_DEDUP :: nat where "CTR_DEDUP = 2"
definition DEDUP_INTERVAL_NS :: "64 word" where "DEDUP_INTERVAL_NS = 1000000000"

record dentry =
  d_parent :: nat
  d_name :: string
  d_ino :: "64 word"

type_synonym dentries = "nat \<Rightarrow> dentry"
type_synonym dedup_map = "64 word \<Rightarrow> 64 word option"

record probe_maps =
  events :: "file_event list"
  scratch :: "nat \<Rightarrow> file_event option"
  counters :: "nat \<Rightarrow> nat \<Rightarrow> 64 word option"
  dedup :: dedup_map

text \<open>\<open>__sync_fetch_and_add\<close> on an element of the per-CPU array, if it is there.\<close>

definition count_up :: "nat \<Rightarrow> nat \<Rightarrow> probe_maps \<Rightarrow> probe_maps" where
  "count_up cpu idx m = (case counters m cpu idx of None \<Rightarrow> m
     | Some n \<Rightarrow> m\<lparr>counters := (counters m)(cpu := (counters m cpu)(idx \<mapsto> n + 1))\<rparr>)"

subsection \<open>emit_event\<close>

text \<open>\<open>bpf_probe_read_kernel_str\<close>: up to the terminating NUL, at most \<open>MAX_NAME_LEN - 1\<close> characters.\<close>

definition read_kernel_str :: "string \<Rightarrow> string" where
  "read_kernel_str s = take (MAX_NAME_LEN - 1) (takeWhile (\<lambda>c. c \<noteq> CHR 0x00) s)"

text \<open>The unrolled loop, with the rounds that are left.\<close>

primrec walk :: "nat \<Rightarrow> dentries \<Rightarrow> nat \<Rightarrow> nat \<Rightarrow> file_event \<Rightarrow> file_event" where
  "walk 0 ds i d evt = evt"
| "walk (Suc n) ds i d evt =
     (let parent = d_parent (ds d) in
      if d = parent then evt
      else if length (d_name (ds d)) = 0 then evt
      else walk n ds (Suc i) parent
        (evt\<lparr>names := (names evt)[i := read_kernel_str (d_name (ds d))], depth := i + 1\<rparr>))"

definition emit_event :: "nat \<Rightarrow> 64 word \<Rightarrow> bool \<Rightarrow> dentries \<Rightarrow> nat \<Rightarrow> nat \<Rightarrow> probe_maps \<Rightarrow> probe_maps" where
  "emit_event cpu now room ds dentry ev m =
     (case scratch m cpu of None \<Rightarrow> m | Some evt \<Rightarrow>
        let evt = walk MAX_DEPTH ds 0 dentry (evt\<lparr>ts_ns := now, event_type := ev, depth := 0\<rparr>);
            m = m\<lparr>scratch := (scratch m)(cpu \<mapsto> evt)\<rparr>
        in if depth evt = 0 then m
           else let m = count_up cpu CTR_TOTAL m in
             if room then m\<lparr>events := events m @ [evt]\<rparr> else count_up cpu CTR_DROPS m)"

subsection \<open>dedup_check\<close>

text \<open>\<open>True\<close>: skip. \<open>lru\<close> is the update of the LRU map, which may evict entries or fail.\<close>

definition dedup_check ::
  "(64 word \<Rightarrow> 64 word \<Rightarrow> dedup_map \<Rightarrow> dedup_map) \<Rightarrow> nat \<Rightarrow> 64 word \<Rightarrow> 64 word \<Rightarrow> probe_maps \<Rightarrow> bool \<times> probe_maps" where
  "dedup_check lru cpu now ino m =
     (if (case dedup m ino of None \<Rightarrow> False | Some prev \<Rightarrow> now - prev < DEDUP_INTERVAL_NS)
      then (True, count_up cpu CTR_DEDUP m)
      else (False, m\<lparr>dedup := lru ino now (dedup m)\<rparr>))"

subsection \<open>The kprobes\<close>

text \<open>What a run of a program meets: its CPU, the values of the clock, the room in the ring buffer.\<close>

record probe_env =
  on_cpu :: nat
  clock1 :: "64 word"
  clock2 :: "64 word"
  room1 :: bool
  room2 :: bool
  lru_update :: "64 word \<Rightarrow> 64 word \<Rightarrow> dedup_map \<Rightarrow> dedup_map"
  tree :: dentries

definition trace_vfs_unlink :: "probe_env \<Rightarrow> nat \<Rightarrow> probe_maps \<Rightarrow> probe_maps" where
  "trace_vfs_unlink e dentry m = emit_event (on_cpu e) (clock1 e) (room1 e) (tree e) dentry EVENT_DELETE m"

definition trace_vfs_write :: "probe_env \<Rightarrow> nat \<Rightarrow> probe_maps \<Rightarrow> probe_maps" where
  "trace_vfs_write e dentry m =
     (let (skip, m) = dedup_check (lru_update e) (on_cpu e) (clock1 e) (d_ino (tree e dentry)) m in
      if skip then m else emit_event (on_cpu e) (clock2 e) (room1 e) (tree e) dentry EVENT_MTIME m)"

definition trace_do_truncate :: "probe_env \<Rightarrow> nat \<Rightarrow> probe_maps \<Rightarrow> probe_maps" where
  "trace_do_truncate e dentry m =
     (let (skip, m) = dedup_check (lru_update e) (on_cpu e) (clock1 e) (d_ino (tree e dentry)) m in
      if skip then m else emit_event (on_cpu e) (clock2 e) (room1 e) (tree e) dentry EVENT_MTIME m)"

definition trace_vfs_rename :: "probe_env \<Rightarrow> nat \<Rightarrow> nat \<Rightarrow> probe_maps \<Rightarrow> probe_maps" where
  "trace_vfs_rename e old_dentry new_dentry m =
     emit_event (on_cpu e) (clock2 e) (room2 e) (tree e) new_dentry EVENT_RENAME_TO
       (emit_event (on_cpu e) (clock1 e) (room1 e) (tree e) old_dentry EVENT_RENAME_FROM m)"

definition trace_vfs_utimes :: "probe_env \<Rightarrow> nat \<Rightarrow> probe_maps \<Rightarrow> probe_maps" where
  "trace_vfs_utimes e dentry m = emit_event (on_cpu e) (clock1 e) (room1 e) (tree e) dentry EVENT_MTIME m"

datatype hook = Vfs_unlink nat | Vfs_write nat | Do_truncate nat | Vfs_rename nat nat | Vfs_utimes nat

fun run_hook :: "probe_env \<Rightarrow> hook \<Rightarrow> probe_maps \<Rightarrow> probe_maps" where
  "run_hook e (Vfs_unlink d) = trace_vfs_unlink e d"
| "run_hook e (Vfs_write d) = trace_vfs_write e d"
| "run_hook e (Do_truncate d) = trace_do_truncate e d"
| "run_hook e (Vfs_rename d d') = trace_vfs_rename e d d'"
| "run_hook e (Vfs_utimes d) = trace_vfs_utimes e d"

definition run_hooks :: "(probe_env \<times> hook) list \<Rightarrow> probe_maps \<Rightarrow> probe_maps" where
  "run_hooks hs m = fold (\<lambda>(e, h). run_hook e h) hs m"

text \<open>\<open>read_percpu_counter\<close>: the sum over the CPUs; 0 when a lookup fails.\<close>

definition read_percpu_counter :: "nat \<Rightarrow> nat \<Rightarrow> probe_maps \<Rightarrow> 64 word" where
  "read_percpu_counter ncpus key m =
     (if list_ex (\<lambda>cpu. counters m cpu key = None) [0..<ncpus] then 0
      else sum_list (map (\<lambda>cpu. the (counters m cpu key)) [0..<ncpus]))"

subsection \<open>Paths\<close>

text \<open>
  The chain of a dentry: the names from the leaf up to the root of its file system, which is its own
  parent. The path they stand for, and the names the kernel allows.
\<close>

primrec chain :: "dentries \<Rightarrow> nat \<Rightarrow> string list \<Rightarrow> bool" where
  "chain ds d [] \<longleftrightarrow> d_parent (ds d) = d"
| "chain ds d (x # xs) \<longleftrightarrow> d_parent (ds d) \<noteq> d \<and> d_name (ds d) = x \<and> chain ds (d_parent (ds d)) xs"

definition kernel_path :: "string list \<Rightarrow> string" where
  "kernel_path xs = (if xs = [] then ''/'' else concat (map (\<lambda>n. CHR ''/'' # n) (rev xs)))"

definition name_ok :: "string \<Rightarrow> bool" where
  "name_ok x \<longleftrightarrow> x \<noteq> [] \<and> length x < MAX_NAME_LEN \<and> CHR 0x00 \<notin> set x"

lemma read_kernel_str_ok [simp]: "name_ok x \<Longrightarrow> read_kernel_str x = x"
proof -
  assume x: "name_ok x"
  then have "takeWhile (\<lambda>c. c \<noteq> CHR 0x00) x = x" by (auto simp: takeWhile_eq_all_conv name_ok_def)
  then show ?thesis using x unfolding read_kernel_str_def by (simp only:) (auto simp: name_ok_def MAX_NAME_LEN_def)
qed

lemma walk_chain:
  assumes "chain ds d xs" and "\<forall>x \<in> set xs. name_ok x" and "i + n \<le> length (names evt)"
  defines "evt' \<equiv> walk n ds i d evt" and "k \<equiv> min n (length xs)"
  shows "depth evt' = (if k = 0 then depth evt else i + k) \<and> take (i + k) (names evt') = take i (names evt) @ take n xs \<and>
    length (names evt') = length (names evt) \<and> ts_ns evt' = ts_ns evt \<and> event_type evt' = event_type evt"
  using assms(1-3) unfolding evt'_def k_def
proof (induction n arbitrary: xs d i evt)
  case (Suc n)
  show ?case
  proof (cases xs)
    case (Cons x ys)
    let ?evt = "evt\<lparr>names := (names evt)[i := x], depth := i + 1\<rparr>"
    from Suc.prems Cons have x: "name_ok x" "x \<noteq> []" "d_parent (ds d) \<noteq> d" "d_name (ds d) = x" "chain ds (d_parent (ds d)) ys"
      by (auto simp: name_ok_def)
    from Suc.IH [OF x(5), of "Suc i" ?evt] Suc.prems Cons
    have IH: "depth (walk n ds (Suc i) (d_parent (ds d)) ?evt) = Suc i + min n (length ys)"
      "take (Suc i + min n (length ys)) (names (walk n ds (Suc i) (d_parent (ds d)) ?evt)) = take (Suc i) ((names evt)[i := x]) @ take n ys"
      "length (names (walk n ds (Suc i) (d_parent (ds d)) ?evt)) = length (names evt)"
      "ts_ns (walk n ds (Suc i) (d_parent (ds d)) ?evt) = ts_ns evt" "event_type (walk n ds (Suc i) (d_parent (ds d)) ?evt) = event_type evt"
      by (auto split: if_splits)
    have "take (Suc i) ((names evt)[i := x]) = take i (names evt) @ [x]"
      using Suc.prems(3) by (simp add: take_Suc_conv_app_nth)
    with IH x Cons show ?thesis by (auto simp: Let_def)
  qed (use Suc.prems in simp)
qed simp

lemma count_up_frame [simp]: "events (count_up cpu i m) = events m" "scratch (count_up cpu i m) = scratch m" "dedup (count_up cpu i m) = dedup m"
  by (simp_all add: count_up_def split: option.split)

text \<open>The event buffers of all CPUs are there, and as large as their type says.\<close>

definition scratch_ok :: "probe_maps \<Rightarrow> bool" where
  "scratch_ok m \<longleftrightarrow> (\<forall>cpu. \<exists>evt. scratch m cpu = Some evt \<and> length (names evt) = MAX_DEPTH)"

lemma walk_names_length: "length (names (walk n ds i d evt)) = length (names evt)"
  by (induction n arbitrary: i d evt) (simp_all add: Let_def)

lemma scratch_ok_upd: "scratch_ok m \<Longrightarrow> scratch m' = (scratch m)(cpu \<mapsto> evt) \<Longrightarrow> length (names evt) = MAX_DEPTH \<Longrightarrow> scratch_ok m'"
  by (simp add: scratch_ok_def)

lemma emit_event_scratch:
  assumes "scratch_ok m"
  shows "scratch_ok (emit_event cpu now room ds d ev m)"
proof -
  obtain b where b: "scratch m cpu = Some b" "length (names b) = MAX_DEPTH" using assms by (auto simp: scratch_ok_def)
  let ?evt = "walk MAX_DEPTH ds 0 d (b\<lparr>ts_ns := now, event_type := ev, depth := 0\<rparr>)"
  have "scratch (emit_event cpu now room ds d ev m) = (scratch m)(cpu \<mapsto> ?evt)"
    by (simp add: emit_event_def Let_def b(1))
  then show ?thesis by (rule scratch_ok_upd [OF assms]) (simp add: walk_names_length b(2))
qed

text \<open>What \<open>emit_event\<close> puts into the ring buffer for a dentry with a chain.\<close>

lemma emit_event_events:
  assumes "scratch_ok m" and "chain ds d xs" and "\<forall>x \<in> set xs. name_ok x"
  shows "\<exists>evt. events (emit_event cpu now room ds d ev m) = events m @ (if xs = [] \<or> \<not> room then [] else [evt]) \<and>
    build_path evt = kernel_path (take MAX_DEPTH xs) \<and> event_type evt = ev \<and> ts_ns evt = now"
proof -
  obtain b where b: "scratch m cpu = Some b" "length (names b) = MAX_DEPTH" using assms(1) by (auto simp: scratch_ok_def)
  define evt where "evt = walk MAX_DEPTH ds 0 d (b\<lparr>ts_ns := now, event_type := ev, depth := 0\<rparr>)"
  have evt: "depth evt = min MAX_DEPTH (length xs)" "take (min MAX_DEPTH (length xs)) (names evt) = take MAX_DEPTH xs"
    "ts_ns evt = now" "event_type evt = ev"
    using walk_chain [OF assms(2,3), of 0 MAX_DEPTH "b\<lparr>ts_ns := now, event_type := ev, depth := 0\<rparr>"] b(2)
    by (auto simp: evt_def MAX_DEPTH_def split: if_splits)
  have "concat (map (\<lambda>n. CHR ''/'' # n) (rev (take MAX_DEPTH xs))) = [] \<longleftrightarrow> xs = []"
    by (auto simp: MAX_DEPTH_def)
  with evt have "build_path evt = kernel_path (take MAX_DEPTH xs)"
    by (auto simp: build_path_def kernel_path_def Let_def MAX_DEPTH_def)
  moreover have "depth evt = 0 \<longleftrightarrow> xs = []" using evt(1) by (cases xs) (auto simp: MAX_DEPTH_def)
  ultimately show ?thesis using evt b
    by (intro exI [of _ evt]) (simp add: emit_event_def Let_def evt_def [symmetric])
qed

text \<open>A write that is reported at all is reported as a change of its path.\<close>

lemma dedup_check_scratch: "scratch (snd (dedup_check lru cpu now ino m)) = scratch m" "events (snd (dedup_check lru cpu now ino m)) = events m"
  by (simp_all add: dedup_check_def)

lemma write_event:
  assumes "scratch_ok m" and "chain (tree e) d xs" and "\<forall>x \<in> set xs. name_ok x"
    and "events (trace_vfs_write e d m) = events m @ [evt]"
  shows "event_type evt = EVENT_MTIME" and "build_path evt = kernel_path (take MAX_DEPTH xs)"
proof -
  obtain skip m' where m': "dedup_check (lru_update e) (on_cpu e) (clock1 e) (d_ino (tree e d)) m = (skip, m')" by fastforce
  from dedup_check_scratch [of "lru_update e" "on_cpu e" "clock1 e" "d_ino (tree e d)" m] assms(1)
  have ok: "scratch_ok m'" "events m' = events m" by (simp_all add: m' scratch_ok_def)
  from emit_event_events [OF ok(1) assms(2,3), of "on_cpu e" "clock2 e" "room1 e" EVENT_MTIME] ok(2) assms(4)
  show "event_type evt = EVENT_MTIME" "build_path evt = kernel_path (take MAX_DEPTH xs)"
    by (auto simp: trace_vfs_write_def m' split: if_splits)
qed

subsection \<open>Counters\<close>

definition array_ok :: "probe_maps \<Rightarrow> bool" where
  "array_ok m \<longleftrightarrow> (\<forall>cpu. \<forall>key < 3. counters m cpu key \<noteq> None)"

lemma array_ok_count_up [simp]: "array_ok m \<Longrightarrow> array_ok (count_up cpu i m)"
  by (auto simp: array_ok_def count_up_def split: option.split)

lemma read_sum: "array_ok m \<Longrightarrow> key < 3 \<Longrightarrow>
    read_percpu_counter n key m = (\<Sum>cpu < n. the (counters m cpu key))"
proof -
  assume "array_ok m" "key < 3"
  then have "\<not> list_ex (\<lambda>cpu. counters m cpu key = None) [0..<n]" unfolding array_ok_def list_ex_iff by blast
  then show ?thesis by (simp add: read_percpu_counter_def interv_sum_list_conv_sum_set_nat atLeast0LessThan)
qed

lemma read_count_up:
  assumes "array_ok m" and "cpu < n" and "i < 3" and "key < 3"
  shows "read_percpu_counter n key (count_up cpu i m) = read_percpu_counter n key m + (if key = i then 1 else 0)"
proof -
  have "(\<Sum>c < n. the (counters (count_up cpu i m) c key)) =
      (\<Sum>c < n. the (counters m c key) + (if c = cpu \<and> key = i then 1 else 0))"
  proof (rule sum.cong)
    obtain v where "counters m cpu i = Some v" using assms(1,3) unfolding array_ok_def by blast
    then show "the (counters (count_up cpu i m) c key) = the (counters m c key) + (if c = cpu \<and> key = i then 1 else 0)" for c
      by (simp add: count_up_def)
  qed simp
  also have "\<dots> = (\<Sum>c < n. the (counters m c key)) + (if key = i then 1 else 0)"
    using assms(2) by (simp add: sum.distrib)
  finally show ?thesis using assms by (simp add: read_sum)
qed

lemma read_frame [simp]:
  "read_percpu_counter n key (m\<lparr>events := es\<rparr>) = read_percpu_counter n key m" "array_ok (m\<lparr>events := es\<rparr>) = array_ok m"
  "read_percpu_counter n key (m\<lparr>scratch := sc\<rparr>) = read_percpu_counter n key m" "array_ok (m\<lparr>scratch := sc\<rparr>) = array_ok m"
  "read_percpu_counter n key (m\<lparr>dedup := dd\<rparr>) = read_percpu_counter n key m" "array_ok (m\<lparr>dedup := dd\<rparr>) = array_ok m"
  by (simp_all add: read_percpu_counter_def array_ok_def)

text \<open>Every event that was counted is in the ring buffer or counted as dropped.\<close>

definition counted :: "nat \<Rightarrow> probe_maps \<Rightarrow> bool" where
  "counted n m \<longleftrightarrow> array_ok m \<and>
     read_percpu_counter n CTR_TOTAL m = word_of_nat (length (events m)) + read_percpu_counter n CTR_DROPS m"

lemma ctr_lt [simp]: "CTR_TOTAL < 3" "CTR_DROPS < 3" "CTR_DEDUP < 3" "CTR_TOTAL \<noteq> CTR_DROPS" "CTR_TOTAL \<noteq> CTR_DEDUP" "CTR_DROPS \<noteq> CTR_DEDUP"
  by (simp_all add: CTR_TOTAL_def CTR_DROPS_def CTR_DEDUP_def)

lemma emit_event_counted:
  assumes "counted n m" and "cpu < n"
  shows "counted n (emit_event cpu now room ds d ev m)"
  using assms by (auto simp: emit_event_def counted_def Let_def read_count_up ac_simps not_sym [OF ctr_lt(4)] split: option.split)

lemma dedup_check_counted:
  assumes "counted n m" and "cpu < n"
  shows "counted n (snd (dedup_check lru cpu now ino m))"
  using assms by (auto simp: dedup_check_def counted_def read_count_up not_sym [OF ctr_lt(5)] not_sym [OF ctr_lt(6)])

lemma run_hook_counted:
  assumes "counted n m" and "on_cpu e < n"
  shows "counted n (run_hook e h m)"
  using assms emit_event_counted dedup_check_counted [OF assms]
  by (cases h) (auto simp: trace_vfs_unlink_def trace_vfs_write_def trace_do_truncate_def trace_vfs_rename_def
      trace_vfs_utimes_def split_beta)

subsection \<open>Suppression of repeated writes\<close>

text \<open>The hook consults the map for this inode.\<close>

definition checks_ino :: "probe_env \<Rightarrow> hook \<Rightarrow> 64 word \<Rightarrow> bool" where
  "checks_ino e h ino \<longleftrightarrow> (\<exists>d. (h = Vfs_write d \<or> h = Do_truncate d) \<and> d_ino (tree e d) = ino)"

definition lru_ok :: "(64 word \<Rightarrow> 64 word \<Rightarrow> dedup_map \<Rightarrow> dedup_map) \<Rightarrow> bool" where
  "lru_ok lru \<longleftrightarrow> (\<forall>ino now M. lru ino now M \<subseteq>\<^sub>m M(ino \<mapsto> now))"

abbreviation skips :: "probe_env \<Rightarrow> 64 word \<Rightarrow> probe_maps \<Rightarrow> bool" where
  "skips e ino m \<equiv> fst (dedup_check (lru_update e) (on_cpu e) (clock1 e) ino m)"

lemma emit_event_dedup [simp]: "dedup (emit_event cpu now room ds d ev m) = dedup m"
  by (simp add: emit_event_def Let_def split: option.split)

lemma run_hook_dedup:
  assumes "lru_ok (lru_update e)" and "dedup (run_hook e h m) ino = Some t"
  shows "dedup m ino = Some t \<or> checks_ino e h ino \<and> \<not> skips e ino m \<and> t = clock1 e"
proof -
  have check: "dedup m ino = Some t \<or> ino' = ino \<and> \<not> skips e ino m \<and> t = clock1 e"
    if "dedup (snd (dedup_check (lru_update e) (on_cpu e) (clock1 e) ino' m)) ino = Some t" for ino'
  proof (cases "skips e ino' m")
    case True
    with that show ?thesis by (auto simp: dedup_check_def split: if_splits)
  next
    case False
    then have "lru_update e ino' (clock1 e) (dedup m) ino = Some t"
      using that by (auto simp: dedup_check_def split: if_splits)
    moreover have "lru_update e ino' (clock1 e) (dedup m) \<subseteq>\<^sub>m (dedup m)(ino' \<mapsto> clock1 e)"
      using assms(1) by (simp add: lru_ok_def)
    ultimately have "((dedup m)(ino' \<mapsto> clock1 e)) ino = Some t" by (force simp: map_le_def dom_def)
    with False show ?thesis by (auto split: if_splits)
  qed
  have "dedup (run_hook e h m) = dedup m \<or>
      (\<exists>d. (h = Vfs_write d \<or> h = Do_truncate d) \<and>
        dedup (run_hook e h m) = dedup (snd (dedup_check (lru_update e) (on_cpu e) (clock1 e) (d_ino (tree e d)) m)))"
    by (cases h) (auto simp: trace_vfs_unlink_def trace_vfs_write_def trace_do_truncate_def trace_vfs_rename_def
        trace_vfs_utimes_def split_beta)
  with assms(2) check show ?thesis by (auto simp: checks_ino_def)
qed

lemma run_hooks_snoc: "run_hooks (hs @ [(e, h)]) m = run_hook e h (run_hooks hs m)"
  by (simp add: run_hooks_def)

lemma run_hooks_dedup:
  assumes "dedup m = Map.empty" and "\<forall>(e, h) \<in> set hs. lru_ok (lru_update e)" and "dedup (run_hooks hs m) ino = Some t"
  shows "\<exists>before e h after. hs = before @ (e, h) # after \<and> checks_ino e h ino \<and> \<not> skips e ino (run_hooks before m) \<and> t = clock1 e"
  using assms(2,3)
proof (induction hs rule: rev_induct)
  case (snoc x hs)
  obtain e h where x: "x = (e, h)" by (cases x)
  with snoc.prems have "dedup (run_hooks hs m) ino = Some t \<or>
      checks_ino e h ino \<and> \<not> skips e ino (run_hooks hs m) \<and> t = clock1 e"
    by (intro run_hook_dedup) (auto simp: run_hooks_snoc)
  then show ?case
  proof
    assume "dedup (run_hooks hs m) ino = Some t"
    with snoc show ?thesis by (auto simp del: split_paired_Ex) (metis append.assoc append_Cons)
  qed (use x in blast)
qed (use assms(1) in \<open>simp add: run_hooks_def\<close>)

subsection \<open>From the ring buffer to the handler\<close>

text \<open>\<open>ring_buffer__poll\<close> hands the records to \<open>handle_event\<close> one by one, each at its own time.\<close>

primrec handle_events :: "(int \<times> file_event) list \<Rightarrow> event_ctx \<Rightarrow> sent list \<times> event_ctx" where
  "handle_events [] ctx = ([], ctx)"
| "handle_events (x # xs) ctx = (let (out, ctx1) = handle_event (fst x) (snd x) ctx;
     (outs, ctx2) = handle_events xs ctx1 in (out @ outs, ctx2))"

lemmas event_types = EVENT_DELETE_def EVENT_MTIME_def EVENT_RENAME_FROM_def EVENT_RENAME_TO_def

text \<open>Two renames at the same time, on two CPUs: the handler pairs the wrong halves.\<close>

lemma interleaved_renames_mispaired:
  "let ev = (\<lambda>ty n. (0, \<lparr>ts_ns = 0, event_type = ty, depth = 1, names = [n]\<rparr>)) in
   fst (handle_events [ev EVENT_RENAME_FROM ''a'', ev EVENT_RENAME_FROM ''b'', ev EVENT_RENAME_TO ''a2'', ev EVENT_RENAME_TO ''b2'']
     \<lparr>ctx_debouncer = d, watch_prefix = ''/'', pending_rename_from = [], has_pending_rename = False\<rparr>) = [Renamed ''/b'' ''/a2'']"
  by (simp add: handle_event_def build_path_def Let_def event_types startswith_def)

subsection \<open>Properties\<close>

text \<open>
  C14: the probe reports the path of the file. For a dentry with a chain of names up to the root of its
  file system, \<open>emit_event\<close> puts nothing into a full ring buffer and nothing for the root itself, and
  otherwise one event from which \<open>build_path\<close> gives the last 20 components of the path: the
  path itself exactly when it has at most 20, for then nothing is cut off at its front.
\<close>

theorem probe_reports_path:
  assumes "scratch_ok m" and "chain ds d xs" and "\<forall>x \<in> set xs. name_ok x"
  shows "(if xs = [] \<or> \<not> room then events (emit_event cpu now room ds d ev m) = events m
     else \<exists>evt. events (emit_event cpu now room ds d ev m) = events m @ [evt] \<and> event_type evt = ev \<and> ts_ns evt = now \<and>
       build_path evt = kernel_path (take 20 xs) \<and> (build_path evt = kernel_path xs \<longleftrightarrow> length xs \<le> 20)) \<and>
    scratch_ok (emit_event cpu now room ds d ev m)"
proof -
  have cut: "kernel_path (take 20 xs) = kernel_path xs \<longleftrightarrow> length xs \<le> 20" if "xs \<noteq> []"
  proof
    assume eq: "kernel_path (take 20 xs) = kernel_path xs"
    let ?path = "\<lambda>ns. concat (map (\<lambda>n. CHR ''/'' # n) ns)"
    have "rev xs = rev (drop 20 xs) @ rev (take 20 xs)" by (simp flip: rev_append)
    then have "?path (rev xs) = ?path (rev (drop 20 xs)) @ ?path (rev (take 20 xs))" by (metis concat_append map_append)
    with eq that have "?path (rev (drop 20 xs)) = []" by (simp add: kernel_path_def)
    then show "length xs \<le> 20" by (cases "drop 20 xs") simp_all
  qed simp
  from emit_event_events [OF assms, of cpu now room ev] emit_event_scratch [OF assms(1)] cut show ?thesis
    by (auto simp: MAX_DEPTH_def)
qed

definition ex_tree :: dentries where
  "ex_tree d = (if d = 0 then \<lparr>d_parent = 0, d_name = ''/'', d_ino = 2\<rparr>
     else if d = 1 then \<lparr>d_parent = 0, d_name = ''home'', d_ino = 3\<rparr>
     else if d = 2 then \<lparr>d_parent = 1, d_name = ''a'', d_ino = 4\<rparr>
     else \<lparr>d_parent = 1, d_name = ''b'', d_ino = 5\<rparr>)"

definition ex_maps :: probe_maps where
  "ex_maps = \<lparr>events = [], scratch = (\<lambda>_. Some \<lparr>ts_ns = 0, event_type = 0, depth = 0, names = replicate 20 []\<rparr>),
     counters = (\<lambda>_ _. Some 0), dedup = Map.empty\<rparr>"

lemma ex_chains: "chain ex_tree 2 [''a'', ''home'']" "chain ex_tree 3 [''b'', ''home'']" "\<forall>x \<in> {''a'', ''b'', ''home''}. name_ok x"
  by (simp_all add: ex_tree_def name_ok_def MAX_NAME_LEN_def)

lemma ex_maps_ok: "scratch_ok ex_maps" "counted n ex_maps"
  by (simp_all add: ex_maps_def scratch_ok_def MAX_DEPTH_def counted_def array_ok_def read_sum)

theorem probe_reports_path_witness:
  "\<exists>evt. events (emit_event 0 7 True ex_tree 2 EVENT_MTIME ex_maps) = [evt] \<and> build_path evt = ''/home/a''"
proof -
  have "\<forall>x \<in> set [''a'', ''home'']. name_ok x" using ex_chains(3) by simp
  from probe_reports_path [OF ex_maps_ok(1) ex_chains(1) this, of True 0 7 EVENT_MTIME] show ?thesis
    by (auto simp: ex_maps_def kernel_path_def)
qed

text \<open>
  C31: the counters account for every event. After any hooks on any CPUs, the total that
  \<open>read_percpu_counter\<close> reports is the number of events in the ring buffer plus the reported number of
  drops, modulo \<open>2 ^ 64\<close>.
\<close>

theorem probe_counts_events:
  assumes "counted ncpus m" and "\<forall>(e, h) \<in> set hs. on_cpu e < ncpus"
  shows "read_percpu_counter ncpus CTR_TOTAL (run_hooks hs m) =
    word_of_nat (length (events (run_hooks hs m))) + read_percpu_counter ncpus CTR_DROPS (run_hooks hs m)"
proof -
  have "counted ncpus (run_hooks hs m)"
    using assms(2)
  proof (induction hs rule: rev_induct)
    case (snoc x hs)
    then show ?case by (cases x) (auto simp: run_hooks_snoc intro: run_hook_counted)
  qed (use assms(1) in \<open>simp add: run_hooks_def\<close>)
  then show ?thesis by (simp add: counted_def)
qed

definition ex_env :: "64 word \<Rightarrow> bool \<Rightarrow> probe_env" where
  "ex_env t room = \<lparr>on_cpu = 1, clock1 = t, clock2 = t + 1, room1 = room, room2 = room,
     lru_update = (\<lambda>ino now M. M(ino \<mapsto> now)), tree = ex_tree\<rparr>"

theorem probe_counts_events_witness:
  "read_percpu_counter 2 CTR_TOTAL (run_hooks [(ex_env 5 True, Vfs_write 2), (ex_env 9 False, Vfs_rename 2 3)] ex_maps) =
   word_of_nat (length (events (run_hooks [(ex_env 5 True, Vfs_write 2), (ex_env 9 False, Vfs_rename 2 3)] ex_maps))) +
     read_percpu_counter 2 CTR_DROPS (run_hooks [(ex_env 5 True, Vfs_write 2), (ex_env 9 False, Vfs_rename 2 3)] ex_maps)"
  by (rule probe_counts_events [OF ex_maps_ok(2)]) (simp add: ex_env_def)

text \<open>
  C30: a suppressed write is covered by a recent one. When the check skips a write or truncation of an
  inode, some earlier write or truncation of the same inode passed the check less than a second
  (of the kernel clock) before. The LRU map may evict any entries, and its update may fail.
\<close>

theorem dedup_within_second:
  assumes "dedup m = Map.empty" and "lru_ok (lru_update e)" and "\<forall>(e', h) \<in> set hs. lru_ok (lru_update e')"
    and "fst (dedup_check (lru_update e) (on_cpu e) (clock1 e) ino (run_hooks hs m))"
  shows "\<exists>before e' h after. hs = before @ (e', h) # after \<and> checks_ino e' h ino \<and>
    \<not> fst (dedup_check (lru_update e') (on_cpu e') (clock1 e') ino (run_hooks before m)) \<and>
    clock1 e - clock1 e' < DEDUP_INTERVAL_NS"
proof -
  from assms(4) obtain t where "dedup (run_hooks hs m) ino = Some t" "clock1 e - t < DEDUP_INTERVAL_NS"
    by (auto simp: dedup_check_def split: option.splits if_splits)
  with run_hooks_dedup [OF assms(1,3)] show ?thesis by blast
qed

theorem dedup_within_second_witness:
  "\<exists>before e' h after. [(ex_env 5 True, Vfs_write 2)] = before @ (e', h) # after \<and> checks_ino e' h 4 \<and>
     clock1 (ex_env 9 True) - clock1 e' < DEDUP_INTERVAL_NS"
proof -
  have "lru_ok (lru_update (ex_env t room))" for t room by (simp add: lru_ok_def ex_env_def)
  moreover have "fst (dedup_check (lru_update (ex_env 9 True)) (on_cpu (ex_env 9 True)) (clock1 (ex_env 9 True)) 4
      (run_hooks [(ex_env 5 True, Vfs_write 2)] ex_maps))"
    by code_simp
  moreover have "dedup ex_maps = Map.empty" by (simp add: ex_maps_def)
  ultimately show ?thesis
    using dedup_within_second [of ex_maps "ex_env 9 True" "[(ex_env 5 True, Vfs_write 2)]" 4] by auto
qed

text \<open>
  C15: a rename arrives as one message with both paths. With room in the ring buffer and paths of at most
  20 components, the two events of \<open>trace_vfs_rename\<close>, handled one after the other in whatever state, make
  the handler pass on the old and the new path once, exactly when one of them has the watched
  prefix; the debouncer is left alone and no half of a rename stays behind.
\<close>

theorem rename_is_paired:
  assumes "scratch_ok m" and "chain (tree e) d xs" and "chain (tree e) d' ys" and "xs \<noteq> []" and "ys \<noteq> []"
    and "\<forall>x \<in> set xs \<union> set ys. name_ok x" and "length xs \<le> 20" and "length ys \<le> 20" and "room1 e" and "room2 e"
  shows "\<exists>e1 e2. events (trace_vfs_rename e d d' m) = events m @ [e1, e2] \<and>
    (case handle_events [(t1, e1), (t2, e2)] ctx of (out, ctx') \<Rightarrow>
      out = (if startswith (kernel_path xs) (watch_prefix ctx) \<or> startswith (kernel_path ys) (watch_prefix ctx)
        then [Renamed (kernel_path xs) (kernel_path ys)] else []) \<and>
      ctx_debouncer ctx' = ctx_debouncer ctx \<and> \<not> has_pending_rename ctx')"
proof -
  let ?m1 = "emit_event (on_cpu e) (clock1 e) (room1 e) (tree e) d EVENT_RENAME_FROM m"
  have ok: "\<forall>x \<in> set xs. name_ok x" "\<forall>x \<in> set ys. name_ok x" using assms(6) by auto
  obtain e1 where e1: "events ?m1 = events m @ [e1]" "event_type e1 = EVENT_RENAME_FROM" "build_path e1 = kernel_path xs"
    using emit_event_events [OF assms(1,2) ok(1), of "on_cpu e" "clock1 e" "room1 e" EVENT_RENAME_FROM] assms(4,7,9)
    by (auto simp: MAX_DEPTH_def)
  obtain e2 where e2: "events (trace_vfs_rename e d d' m) = events ?m1 @ [e2]" "event_type e2 = EVENT_RENAME_TO"
      "build_path e2 = kernel_path ys"
    using emit_event_events [OF emit_event_scratch [OF assms(1), of "on_cpu e" "clock1 e" "room1 e" "tree e" d EVENT_RENAME_FROM]
        assms(3) ok(2), of "on_cpu e" "clock2 e" "room2 e" EVENT_RENAME_TO] assms(5,8,10)
    by (auto simp: MAX_DEPTH_def trace_vfs_rename_def)
  show ?thesis
    by (rule exI [of _ e1], rule exI [of _ e2]) (use e1 e2 in \<open>simp add: handle_event_def Let_def event_types\<close>)
qed

theorem rename_is_paired_witness:
  "\<exists>e1 e2. events (trace_vfs_rename (ex_env 5 True) 2 3 ex_maps) = [e1, e2] \<and>
     fst (handle_events [(0, e1), (0, e2)] \<lparr>ctx_debouncer = \<lparr>quiet_period = 1, max_wait = 9, entries = []\<rparr>,
       watch_prefix = ''/home'', pending_rename_from = [], has_pending_rename = False\<rparr>) = [Renamed ''/home/a'' ''/home/b'']"
proof -
  have "\<forall>x \<in> set [''a'', ''home''] \<union> set [''b'', ''home'']. name_ok x" using ex_chains(3) by simp
  moreover have "tree (ex_env 5 True) = ex_tree" "room1 (ex_env 5 True)" "room2 (ex_env 5 True)" by (simp_all add: ex_env_def)
  ultimately show ?thesis
    using rename_is_paired [OF ex_maps_ok(1), of "ex_env 5 True" 2 "[''a'', ''home'']" 3 "[''b'', ''home'']"
        "\<lparr>ctx_debouncer = \<lparr>quiet_period = 1, max_wait = 9, entries = []\<rparr>, watch_prefix = ''/home'',
          pending_rename_from = [], has_pending_rename = False\<rparr>" 0 0] ex_chains
    by (auto simp: ex_maps_def kernel_path_def startswith_def split_beta)
qed

end
