(* ===== verification/AgentLedger.thy ===== *)
theory AgentLedger
  imports AgentMain Probe "HOL-Library.Multiset"
begin

text \<open>
  What happens to the agent's messages: the contracts of librdkafka and of the operating system as
  locales, and the accounting that every operation of the agent keeps. A message is at each moment
  acknowledged by the broker, waiting for its delivery report, readable in the log, or given up.
\<close>

subsection \<open>Contracts\<close>

text \<open>What librdkafka holds: messages without a report, and messages reported as delivered.\<close>

record kafka_view =
  unreported :: "string multiset"
  acked :: "string multiset"

definition produce_eff :: "string \<Rightarrow> kafka_view \<Rightarrow> exn + bool \<Rightarrow> kafka_view \<Rightarrow> bool" where
  "produce_eff json v r v' = (case r of Inl _ \<Rightarrow> False
     | Inr queued \<Rightarrow> v' = (if queued then v\<lparr>unreported := add_mset json (unreported v)\<rparr> else v))"

text \<open>Every message is reported once; a report without error means it was delivered.\<close>

definition report_eff :: "kafka_view \<Rightarrow> exn + delivery_report list \<Rightarrow> kafka_view \<Rightarrow> bool" where
  "report_eff v r v' = (case r of Inl _ \<Rightarrow> False
     | Inr reps \<Rightarrow> unreported v = unreported v' + mset (map rep_json reps) \<and>
         acked v' = acked v + mset (map rep_json (filter (\<lambda>rep. \<not> rep_err rep) reps)))"

text \<open>A call that returns, leaves the messages alone and gives a value with \<open>P\<close>.\<close>

definition gives :: "('w \<Rightarrow> 'v) \<Rightarrow> ('a \<Rightarrow> bool) \<Rightarrow> ('w, 'a) py \<Rightarrow> bool" where
  "gives see P m \<longleftrightarrow> (\<forall>w. \<exists>x w'. m w = Some (Inr x, w') \<and> see w' = see w \<and> P x)"

abbreviation calm :: "('w \<Rightarrow> 'v) \<Rightarrow> ('w, 'a) py \<Rightarrow> bool" where
  "calm see m \<equiv> gives see (\<lambda>_. True) m"

text \<open>An event as the probe writes it: at most \<open>MAX_DEPTH\<close> names of at most 255 bytes.\<close>

definition event_ok :: "file_event \<Rightarrow> bool" where
  "event_ok evt \<longleftrightarrow> depth evt \<le> MAX_DEPTH \<and> (\<forall>n \<in> set (names evt). length n < MAX_NAME_LEN)"

text \<open>A condition that only a healthy machine promises.\<close>

definition provided :: "bool \<Rightarrow> bool \<Rightarrow> bool" where
  "provided healthy P \<longleftrightarrow> (healthy \<longrightarrow> P)"

text \<open>
  The contract. With \<open>healthy\<close> the disk works (what is written arrives, the log can be read, emptied and
  reopened), and a client that is waited for as long as its \<open>message.timeout.ms\<close> of ten seconds has reported
  every message.
\<close>

locale agent_env =
  fixes see :: "'w \<Rightarrow> kafka_view" and K :: "'w rdkafka" and OS :: "'w agent_os" and healthy :: bool
  assumes produce: "atomic see (=) (produce_eff json) (rd_produce K json key)"
    and poll: "atomic see (=) report_eff (rd_poll K t)"
    and flush: "atomic see (=) (\<lambda>v r v'. report_eff v r v' \<and> provided (healthy \<and> 10000 \<le> t) (unreported v' = {#})) (rd_flush K t)"
    and kafka_calls: "calm see (rd_conf_set K c v)" "calm see (rd_kafka_new K)" "calm see (rd_topic_new K tp)" "calm see (rd_destroy K)"
    and events: "gives see (\<lambda>(evts, err). \<forall>evt \<in> set evts. event_ok evt) (ring_buffer_poll OS t)"
    and system_ms: "gives see (\<lambda>ts. \<bar>ts\<bar> < 2 ^ 63) (system_ms OS)"
    and host_calls: "calm see (parse_file OS path)" "calm see (os_gethostname OS)" "calm see (os_mkdir OS path)"
      "calm see (steady_ns OS)" "calm see (sig_running OS)" "calm see (percpu_counter OS i)"
    and fopen: "gives see (provided healthy) (fs_open OS)"
    and fwrite: "gives see (\<lambda>(written, reached). provided healthy (written \<and> length rec \<le> reached)) (fs_fwrite OS rec)"
    and fread: "gives see (provided healthy) (fs_readable OS)"
    and fclear: "gives see (\<lambda>(cleared, reopened). provided healthy (cleared \<and> reopened)) (fs_clear OS)"
    and fstat: "gives see (provided healthy) (fs_stat OS)"
    and bpf_calls: "calm see (bpf_open_and_load OS)" "calm see (bpf_attach OS)" "calm see (ring_buffer_new OS)"
      "calm see (ring_buffer_free OS)" "calm see (bpf_destroy OS)"

lemma gives_wp:
  assumes "gives see P m" and "\<And>x w'. see w' = see w \<Longrightarrow> P x \<Longrightarrow> Q x w'"
  shows "wp d m Q E w"
proof -
  from assms(1) obtain x w' where "m w = Some (Inr x, w')" "see w' = see w" "P x" unfolding gives_def by blast
  with assms(2) show ?thesis by (simp add: wp_def)
qed

subsection \<open>The accounts\<close>

text \<open>Where messages are.\<close>

definition held :: "('w \<Rightarrow> kafka_view) \<Rightarrow> 'w agent \<Rightarrow> string multiset" where
  "held see s = acked (see (outside s)) + unreported (see (outside s)) +
     mset (wal_records (wal_file (ag_wal s))) + mset (map snd (lost s))"

text \<open>On a healthy machine: the log is in order, and only its limit makes the agent give up a message.\<close>

definition tidy :: "('w \<Rightarrow> kafka_view) \<Rightarrow> 'w agent \<Rightarrow> bool" where
  "tidy see s \<longleftrightarrow> (\<exists>ds. wal_holds (ag_wal s) ds) \<and> wal_fp (ag_wal s) \<and>
     (\<forall>json \<in># unreported (see (outside s)). small json) \<and> (\<forall>(why, json) \<in> set (lost s). why = Over_limit)"

text \<open>What the handling of messages leaves alone.\<close>

definition same :: "'w agent \<Rightarrow> 'w agent \<Rightarrow> bool" where
  "same s s' \<longleftrightarrow> trace s' = trace s \<and> ectx s' = ectx s \<and> ag_hostname s' = ag_hostname s \<and>
     rk_ptr s' = rk_ptr s \<and> rkt_ptr s' = rkt_ptr s"

text \<open>From \<open>s\<close> to \<open>t\<close> the messages \<open>js\<close> came in, and the messages \<open>ks\<close> are in hand.\<close>

definition moves :: "bool \<Rightarrow> ('w \<Rightarrow> kafka_view) \<Rightarrow> string list \<Rightarrow> string list \<Rightarrow> 'w agent \<Rightarrow> 'w agent \<Rightarrow> bool" where
  "moves ok see js ks s t \<longleftrightarrow> same s t \<and> held see s + mset js \<subseteq># held see t + mset ks \<and>
     (ok \<and> tidy see s \<and> (\<forall>j \<in> set js. small j) \<longrightarrow> tidy see t \<and> (\<forall>k \<in> set ks. small k))"

lemma moves_refl [simp]: "moves ok see js js s s"
  by (simp add: moves_def same_def)

lemma moves_trans: "moves ok see js ks s t \<Longrightarrow> moves ok see ks ls t u \<Longrightarrow> moves ok see js ls s u"
proof -
  assume 1: "moves ok see js ks s t" and 2: "moves ok see ks ls t u"
  then have "held see s + mset js \<subseteq># held see t + mset ks" "held see t + mset ks \<subseteq># held see u + mset ls"
    by (simp_all add: moves_def)
  then have "held see s + mset js \<subseteq># held see u + mset ls" by (rule subset_mset.order_trans)
  moreover have "same s t" "same t u" using 1 2 by (simp_all only: moves_def)
  then have "same s u" by (simp add: same_def)
  ultimately show ?thesis using 1 2 unfolding moves_def by blast
qed

lemma moves_more: "moves ok see js ks s t \<Longrightarrow> moves ok see (js @ ls) (ks @ ls) s t"
  by (auto simp: moves_def)

lemma moves_quiet:
  assumes "see (outside t) = see (outside s)" and "ag_wal t = ag_wal s" and "lost t = lost s" and "same s t"
  shows "moves ok see js js s t"
  using assms by (simp add: moves_def held_def tidy_def)

lemma moves_then_quiet:
  assumes "moves ok see js ks s t" and "see (outside u) = see (outside t)" and "ag_wal u = ag_wal t" and "lost u = lost t" and "same t u"
  shows "moves ok see js ks s u"
  using assms by (blast intro: moves_trans moves_quiet)

lemma wal_append_extends: "\<exists>t. wal_file (snd (wal_append written reached json w)) = wal_file w @ t"
  by (simp add: wal_append_def Let_def)

lemma outside_appended [simp]: "outside (wal_appended written reached json s) = outside s"
  by (simp add: wal_appended_def Let_def)

lemma tidy_appended:
  assumes "tidy see s" and "small json" and "written" and "length (wal_record json) \<le> reached"
  shows "tidy see (wal_appended written reached json s)"
proof -
  from assms(1) obtain ds where ds: "wal_holds (ag_wal s) ds" and fp: "wal_fp (ag_wal s)" by (auto simp: tidy_def)
  let ?w = "snd (wal_append written reached json (ag_wal s))"
  have w: "wal_holds ?w (ds @ [json])" "wal_fp ?w"
    using ds fp assms(2-4) by (auto simp: wal_append_def Let_def wal_holds_def)
  with wal_holds_read [OF ds] wal_holds_read [OF w(1)] assms(1) show ?thesis
    by (auto simp: tidy_def wal_appended_def Let_def)
qed

lemma moves_appended:
  assumes "wal_fp (ag_wal s) \<Longrightarrow> provided ok (written \<and> length (wal_record json) \<le> reached)"
  shows "moves ok see [json] [] s (wal_appended written reached json s)"
proof -
  let ?w = "snd (wal_append written reached json (ag_wal s))"
  obtain ds where ds: "wal_records (wal_file ?w) = wal_records (wal_file (ag_wal s)) @ ds"
    using wal_append_extends [of written reached json "ag_wal s"] wal_records_append by metis
  have "held see s + {#json#} \<subseteq># held see (wal_appended written reached json s)"
    by (auto simp: held_def wal_appended_def Let_def ds)
  moreover have "tidy see (wal_appended written reached json s)" if ok "tidy see s" "small json"
    using that assms by (intro tidy_appended) (auto simp: tidy_def provided_def)
  ultimately show ?thesis by (auto simp: moves_def same_def wal_appended_def Let_def)
qed

text \<open>A loop over messages: each round puts one away.\<close>

lemma for_moves:
  assumes "\<And>x s. wp False (f x) (\<lambda>_ t. moves ok see (g x) [] s t \<and> R s t) E s"
    and "\<And>s. R s s" and "\<And>s t u. R s t \<Longrightarrow> R t u \<Longrightarrow> R s u"
  shows "wp False (for_py xs f) (\<lambda>_ t. moves ok see (concat (map g xs)) [] s t \<and> R s t) E s"
proof (induction xs arbitrary: s)
  case Nil
  then show ?case by (simp add: wp_return assms(2))
next
  case (Cons x xs)
  have join: "moves ok see (g x @ concat (map g xs)) [] s u" if "moves ok see (g x) [] s t" "moves ok see (concat (map g xs)) [] t u" for t u
    using moves_trans [OF moves_more [OF that(1), of "concat (map g xs)"]] that(2) by simp
  show ?case
    unfolding for_py.simps
    by (rule wp_seqI [OF assms(1)], rule wp_mono [OF Cons.IH]) (auto intro: join assms(3))
qed

context agent_env
begin

lemmas wp_calm = gives_wp [where P = "\<lambda>_. True"]

text \<open>A step that touches neither the messages nor the log.\<close>

definition kept :: "'w agent \<Rightarrow> 'w agent \<Rightarrow> bool" where
  "kept s t \<longleftrightarrow> see (outside t) = see (outside s)"

abbreviation puts :: "string list \<Rightarrow> string list \<Rightarrow> 'w agent \<Rightarrow> 'w agent \<Rightarrow> bool" where
  "puts js ks s t \<equiv> moves healthy see js ks s t"

lemma append_json_moves: "wp False (append_json OS json) (\<lambda>_ t. puts [json] [] s t \<and> kept s t) (\<lambda>_ _. False) s"
proof -
  have put: "puts [json] [] s (wal_appended written reached json (s\<lparr>outside := w\<rparr>))"
    if "see w = see (outside s)" "wal_fp (ag_wal s) \<Longrightarrow> provided healthy (written \<and> length (wal_record json) \<le> reached)" for w written reached
    by (rule moves_trans [OF moves_quiet [of see "s\<lparr>outside := w\<rparr>"] moves_appended]) (use that in \<open>simp_all add: same_def\<close>)
  show ?thesis
  proof (cases "wal_fp (ag_wal s)")
    case True
    then show ?thesis
      by (auto simp: append_json_def wp_rules kept_def intro!: gives_wp [OF fwrite] put)
  next
    case False
    with put [of "outside s" False 0] show ?thesis
      by (simp add: append_json_def wp_rules kept_def)
  qed
qed

text \<open>The limit is the only reason not to write.\<close>

lemma moves_over_limit:
  "see w = see (outside s) \<Longrightarrow> puts [json] [] s (s\<lparr>kafka_failed := n, outside := w, lost := lost s @ [(Over_limit, json)]\<rparr>)"
  by (auto simp: moves_def same_def held_def tidy_def)

lemma on_fail_moves: "wp False (on_fail OS json) (\<lambda>_ t. puts [json] [] s t \<and> kept s t) (\<lambda>_ _. False) s"
proof -
  let ?t = "\<lambda>w. s\<lparr>kafka_failed := kafka_failed s + 1, outside := w\<rparr>"
  have "wp False (append_json OS json) (\<lambda>_ u. puts [json] [] s u \<and> kept s u) (\<lambda>_ _. False) (?t w)"
    if "see w = see (outside s)" for w
  proof (rule wp_mono [OF append_json_moves])
    have "puts [json] [json] s (?t w)" by (rule moves_quiet) (use that in \<open>simp_all add: same_def\<close>)
    then show "puts [json] [] s u \<and> kept s u" if "puts [json] [] (?t w) u \<and> kept (?t w) u" for u
      using that \<open>see w = see (outside s)\<close> by (auto simp: kept_def intro: moves_trans)
  qed simp
  then show ?thesis
    by (auto simp: on_fail_def wp_rules kept_def intro!: gives_wp [OF fstat] moves_over_limit)
qed

lemma kafka_send_moves: "wp False (kafka_send K OS json key) (\<lambda>_. puts [json] [] s) (\<lambda>_ _. False) s"
proof -
  have failed: "wp False (seq_py (on_fail OS json) (return_py False)) (\<lambda>_. puts [json] [] s) (\<lambda>_ _. False) t"
    if "puts [json] [json] s t" for t
    unfolding wp_seq wp_return by (rule wp_mono [OF on_fail_moves]) (auto intro: moves_trans [OF that])
  have queued: "puts [json] [] s (s\<lparr>outside := w\<rparr>)"
    if "see w = (see (outside s))\<lparr>unreported := add_mset json (unreported (see (outside s)))\<rparr>" for w
    using that by (auto simp: moves_def same_def held_def tidy_def)
  have refused: "puts [json] [json] s (s\<lparr>outside := w\<rparr>)" if "see w = see (outside s)" for w
    by (rule moves_quiet) (use that in \<open>simp_all add: same_def\<close>)
  show ?thesis
    by (auto simp: kafka_send_def wp_bind wp_get wp_call wp_return produce_eff_def intro!: atomic_wp [OF produce] failed queued refused split: if_splits)
qed

lemma kept_refl: "kept s s" and kept_trans: "kept s t \<Longrightarrow> kept t u \<Longrightarrow> kept s u"
  by (simp_all add: kept_def)

definition failed_json :: "delivery_report \<Rightarrow> string list" where
  "failed_json rep = (if rep_err rep then [rep_json rep] else [])"

lemma dr_msg_cb_moves: "wp False (dr_msg_cb OS rep) (\<lambda>_ t. puts (failed_json rep) [] s t \<and> kept s t) (\<lambda>_ _. False) s"
  using on_fail_moves by (simp add: dr_msg_cb_def failed_json_def wp_return kept_refl)

lemma reports_served:
  assumes "report_eff (see (outside s)) (Inr reps) (see w)"
  shows "puts [] (concat (map failed_json reps)) s (s\<lparr>outside := w\<rparr>)"
proof -
  let ?rest = "mset (map rep_json (filter rep_err reps))" and ?good = "mset (map rep_json (filter (\<lambda>rep. \<not> rep_err rep) reps))"
  have all: "mset (map rep_json reps) = ?rest + ?good" by (induction reps) simp_all
  have rest: "mset (concat (map failed_json reps)) = ?rest" by (induction reps) (simp_all add: failed_json_def)
  have eff: "unreported (see (outside s)) = unreported (see w) + (?rest + ?good)" "acked (see w) = acked (see (outside s)) + ?good"
    using assms by (simp_all only: report_eff_def sum.case all simp_thms)
  have "held see s = held see (s\<lparr>outside := w\<rparr>) + ?rest" by (simp add: held_def eff ac_simps)
  moreover have "set (concat (map failed_json reps)) \<subseteq> set_mset (unreported (see (outside s)))"
    unfolding set_mset_mset [symmetric] rest by (auto simp: eff)
  moreover have "set_mset (unreported (see w)) \<subseteq> set_mset (unreported (see (outside s)))" by (simp add: eff)
  ultimately show ?thesis by (auto simp: moves_def same_def tidy_def rest)
qed

lemma served_moves:
  assumes "puts [] (concat (map failed_json reps)) s t"
  shows "wp False (for_py reps (dr_msg_cb OS)) (\<lambda>_ u. puts [] [] s u \<and> kept t u) (\<lambda>_ _. False) t"
  by (rule wp_mono [OF for_moves [where R = kept, OF dr_msg_cb_moves kept_refl kept_trans]]) (auto intro: moves_trans [OF assms])

lemma kafka_poll_moves: "wp False (kafka_poll K OS t) (\<lambda>_. puts [] [] s) (\<lambda>_ _. False) s"
proof -
  have "wp False (for_py reps (dr_msg_cb OS)) (\<lambda>_. puts [] [] s) (\<lambda>_ _. False) (s\<lparr>outside := w\<rparr>)"
    if "report_eff (see (outside s)) (Inr reps) (see w)" for reps w
    by (rule wp_mono [OF served_moves [OF reports_served [OF that]]]) auto
  then show ?thesis
    by (auto simp: kafka_poll_def wp_bind wp_get wp_call wp_return intro!: atomic_wp [OF poll]) (auto simp: report_eff_def)
qed

text \<open>After a flush that waits long enough, a healthy client owes no report.\<close>

lemma flushed_moves:
  assumes "rk_ptr s"
  shows "wp False (call (rd_flush K t)) (\<lambda>reps. wp False (for_py reps (dr_msg_cb OS))
      (\<lambda>_ u. puts [] [] s u \<and> provided (healthy \<and> 10000 \<le> t) (unreported (see (outside u)) = {#})) (\<lambda>_ _. False)) (\<lambda>_ _. False) s"
proof -
  have "wp False (for_py reps (dr_msg_cb OS)) (\<lambda>_ u. puts [] [] s u \<and> provided (healthy \<and> 10000 \<le> t) (unreported (see (outside u)) = {#}))
      (\<lambda>_ _. False) (s\<lparr>outside := w\<rparr>)"
    if "report_eff (see (outside s)) (Inr reps) (see w)" "provided (healthy \<and> 10000 \<le> t) (unreported (see w) = {#})" for reps w
    by (rule wp_mono [OF served_moves [OF reports_served [OF that(1)]]]) (use that(2) in \<open>auto simp: kept_def\<close>)
  then show ?thesis
    by (auto simp: wp_call intro!: atomic_wp [OF flush]) (auto simp: report_eff_def)
qed

lemma kafka_flush_moves: "wp False (kafka_flush K OS t)
    (\<lambda>_ u. puts [] [] s u \<and> (rk_ptr s \<longrightarrow> provided (healthy \<and> 10000 \<le> t) (unreported (see (outside u)) = {#}))) (\<lambda>_ _. False) s"
proof (cases "rk_ptr s")
  case True
  from wp_mono [OF flushed_moves [OF True, of t]] True show ?thesis
    by (simp add: kafka_flush_def wp_bind wp_get)
qed (simp add: kafka_flush_def wp_bind wp_get wp_return)

lemma kafka_delete_moves: "wp False (kafka_delete K OS)
    (\<lambda>_ u. puts [] [] s u \<and> (rk_ptr s \<longrightarrow> provided healthy (unreported (see (outside u)) = {#}))) (\<lambda>_ _. False) s"
proof (cases "rk_ptr s")
  case True
  have "wp False (call (rd_destroy K)) (\<lambda>_ v. puts [] [] s v \<and> (rk_ptr s \<longrightarrow> provided healthy (unreported (see (outside v)) = {#}))) (\<lambda>_ _. False) u"
    if "puts [] [] s u" "provided healthy (unreported (see (outside u)) = {#})" for u
    unfolding wp_call
  proof (rule wp_calm [OF kafka_calls(4)])
    fix w assume "see w = see (outside u)"
    with that show "puts [] [] s (u\<lparr>outside := w\<rparr>) \<and> (rk_ptr s \<longrightarrow> provided healthy (unreported (see (outside (u\<lparr>outside := w\<rparr>))) = {#}))"
      by (auto intro!: moves_then_quiet [OF that(1)] simp: same_def)
  qed
  then show ?thesis
    using True by (auto simp: kafka_delete_def wp_bind wp_get wp_seq intro!: wp_mono [OF flushed_moves [OF True, of 15000]] elim!: wp_mono)
qed (simp add: kafka_delete_def wp_bind wp_get wp_return)

lemma truncate_log_moves: "wp False (truncate_log OS) (\<lambda>_. puts [] (wal_records (wal_file (ag_wal s))) s) (\<lambda>_ _. False) s"
proof -
  have "puts [] (wal_records (wal_file (ag_wal s))) s (s\<lparr>outside := w, ag_wal := wal_truncate cleared reopened (ag_wal s)\<rparr>)"
    if w: "see w = see (outside s)" "provided healthy (cleared \<and> reopened)" for w cleared reopened
  proof -
    let ?t = "s\<lparr>outside := w, ag_wal := wal_truncate cleared reopened (ag_wal s)\<rparr>"
    have "held see s \<subseteq># held see ?t + mset (wal_records (wal_file (ag_wal s)))"
      using w(1) by (cases cleared) (simp_all add: held_def wal_truncate_def)
    moreover have "tidy see ?t \<and> (\<forall>k \<in> set (wal_records (wal_file (ag_wal s))). small k)" if healthy "tidy see s"
    proof -
      from that obtain ds where ds: "wal_holds (ag_wal s) ds" by (auto simp: tidy_def)
      then have "\<forall>d \<in> set (wal_records (wal_file (ag_wal s))). small d"
        using wal_holds_read [OF ds] by (simp add: wal_holds_def)
      moreover have "wal_holds (wal_truncate True True (ag_wal s)) []" "wal_fp (wal_truncate True True (ag_wal s))"
        by (simp_all add: wal_truncate_def wal_holds_def)
      moreover have cleared reopened using w(2) that(1) by (simp_all add: provided_def)
      ultimately show ?thesis using that(2) w(1) by (auto simp: tidy_def)
    qed
    ultimately show ?thesis by (simp add: moves_def same_def)
  qed
  then show ?thesis by (auto simp: truncate_log_def wp_rules intro!: gives_wp [OF fclear])
qed

lemma resend_moves: "wp False (resend K OS json) (\<lambda>_ t. puts [json] [] s t \<and> True) (\<lambda>_ _. False) s"
  unfolding resend_def wp_bind wp_get wp_modify
  by (rule wp_mono [OF kafka_send_moves]) (auto elim!: moves_then_quiet simp: same_def)

lemma replay_wal_moves: "wp False (replay_wal K OS timeout) (\<lambda>_. puts [] [] s) (\<lambda>_ _. False) s"
proof -
  have all: "wp False (for_py records (resend K OS)) (\<lambda>_. puts records [] t) (\<lambda>_ _. False) t" for records t
    using for_moves [where R = "\<lambda>_ _. True" and g = "\<lambda>json. [json]", OF resend_moves, of records t] by (simp add: concat_map_singleton)
  have sent: "wp False (seq_py (truncate_log OS) (seq_py (for_py records (resend K OS)) (kafka_flush K OS timeout)))
      (\<lambda>_. puts [] [] s) (\<lambda>_ _. False) t"
    if records: "records = wal_records (wal_file (ag_wal t))" and t: "puts [] [] s t" for records t
  proof (rule wp_seqI [OF truncate_log_moves], rule wp_seqI [OF all])
    fix u v
    assume "puts [] (wal_records (wal_file (ag_wal t))) t u" "puts records [] u v"
    then have "puts [] [] s v" using t records by (blast intro: moves_trans)
    then show "wp False (kafka_flush K OS timeout) (\<lambda>_. puts [] [] s) (\<lambda>_ _. False) v"
      by (intro wp_mono [OF kafka_flush_moves]) (auto intro: moves_trans)
  qed
  have "puts [] [] s (s\<lparr>outside := w\<rparr>)" if "see w = see (outside s)" for w
    by (rule moves_quiet) (use that in \<open>simp_all add: same_def\<close>)
  then show ?thesis
    unfolding replay_wal_def
    by (auto simp: wp_bind wp_get wp_call wp_return wal_read_all_def intro!: gives_wp [OF fread] sent)
qed

end

end
