(* ===== verification/AgentRun.thy ===== *)
theory AgentRun
  imports AgentLedger
begin

text \<open>
  From events to messages: every change the agent handles is followed by a message about it, every
  message fits into the log, and the accounts of \<open>AgentLedger\<close> are kept by the handler, the main loop
  and the whole program. The invariant \<open>agent_inv\<close> is kept by every operation of \<open>AgentMain\<close>.
\<close>

subsection \<open>Sizes\<close>

text \<open>Every message the agent builds from a path of the probe fits into a record of the log.\<close>

definition max_path :: nat where "max_path = 5120"

lemma length_build_path: "event_ok evt \<Longrightarrow> length (build_path evt) \<le> max_path"
proof -
  assume ok: "event_ok evt"
  let ?ns = "rev (take (depth evt) (names evt))"
  have "length ?ns \<le> 20" "\<forall>n \<in> set ?ns. length n \<le> 255"
    using ok by (auto simp: event_ok_def MAX_DEPTH_def MAX_NAME_LEN_def dest!: in_set_takeD)
  moreover have "length (concat (map (\<lambda>n. CHR ''/'' # n) ns)) \<le> 256 * length ns" if "\<forall>n \<in> set ns. length n \<le> 255" for ns :: "string list"
    using that by (induction ns) auto
  ultimately have "length (concat (map (\<lambda>n. CHR ''/'' # n) ?ns)) \<le> 256 * 20"
    using order_trans mult_le_mono2 by meson
  then show ?thesis by (simp add: build_path_def Let_def max_path_def)
qed

lemma length_json_escape: "length (json_escape s) \<le> 6 * length s"
proof (induction s rule: json_escape.induct)
  case (2 c s)
  have one: "length (escape_ascii c) \<le> 6" by (simp add: escape_ascii_def Let_def)
  show ?case
  proof (cases "ord_of c < 0x80")
    case True
    with 2(1) one show ?thesis by simp
  next
    case high: False
    show ?thesis
    proof (cases "valid_seq (c # s)")
      case True
      then have "seq_len c \<le> length (c # s)" by (simp add: valid_seq_def Let_def)
      with 2(2) [OF high True] high True show ?thesis by simp
    qed (use 2(3) high in simp)
  qed
qed simp

lemma length_show_int: "\<bar>ts\<bar> < 2 ^ 63 \<Longrightarrow> length (show_int ts) \<le> 20"
proof -
  assume "\<bar>ts\<bar> < 2 ^ 63"
  then have "nat \<bar>ts\<bar> < 10 ^ Suc 18" by simp
  from length_show_nat [OF this] show ?thesis by (cases "ts < 0") (simp_all add: show_int_def)
qed

lemma message_small:
  assumes "\<bar>ts\<bar> < 2 ^ 63" and "length host \<le> 255" and "length p \<le> max_path" and "length q \<le> max_path"
  shows "small (build_json ts (type_str ev) p host)" and "small (rename_json ts p q host)"
  using length_show_int [OF assms(1)] length_json_escape [of host] length_json_escape [of p] length_json_escape [of q] assms(2-4)
  by (simp_all add: build_json_def rename_json_def quoted_def type_str_def max_path_def del: json_escape.simps)

subsection \<open>No event is forgotten\<close>

text \<open>
  After every change or deletion that was handled, of a path with the watched prefix, comes a message
  about the path, unless the path still waits.
\<close>

definition announced :: "string \<Rightarrow> string \<Rightarrow> happening list \<Rightarrow> bool" where
  "announced host path h \<longleftrightarrow> (\<exists>ts ev. \<bar>ts\<bar> < 2 ^ 63 \<and> Made (build_json ts (type_str ev) path host) \<in> set h)"

definition watched :: "string \<Rightarrow> file_event \<Rightarrow> bool" where
  "watched prefix evt \<longleftrightarrow> event_type evt \<notin> {EVENT_RENAME_FROM, EVENT_RENAME_TO} \<and> startswith (build_path evt) prefix"

definition covers :: "string \<Rightarrow> string \<Rightarrow> happening list \<Rightarrow> string set \<Rightarrow> bool" where
  "covers host prefix tr W \<longleftrightarrow> (\<forall>h evt h'. tr = h @ Got evt # h' \<and> watched prefix evt \<longrightarrow>
     build_path evt \<in> W \<or> announced host (build_path evt) h')"

lemma covers_snoc: "covers host prefix (tr @ [x]) W \<longleftrightarrow>
    (\<forall>h evt h'. tr = h @ Got evt # h' \<and> watched prefix evt \<longrightarrow> build_path evt \<in> W \<or> announced host (build_path evt) (h' @ [x])) \<and>
    (\<forall>evt. x = Got evt \<and> watched prefix evt \<longrightarrow> build_path evt \<in> W)"
  (is "?l \<longleftrightarrow> ?r1 \<and> ?r2")
proof (intro iffI conjI)
  assume l: ?l
  then show ?r1 unfolding covers_def by (metis append.assoc append_Cons)
  from l show ?r2 unfolding covers_def by (force simp: announced_def)
next
  assume r: "?r1 \<and> ?r2"
  show ?l
    unfolding covers_def
  proof (intro allI impI)
    fix h evt h'
    assume "tr @ [x] = h @ Got evt # h' \<and> watched prefix evt"
    with r show "build_path evt \<in> W \<or> announced host (build_path evt) h'"
      by (cases h' rule: rev_cases) auto
  qed
qed

lemma announced_more: "announced host p h \<Longrightarrow> announced host p (h @ h')"
  by (auto simp: announced_def)

lemma covers_Got: "covers host prefix tr W \<Longrightarrow> W \<subseteq> W' \<Longrightarrow> (watched prefix evt \<Longrightarrow> build_path evt \<in> W') \<Longrightarrow>
    covers host prefix (tr @ [Got evt]) W'"
  unfolding covers_snoc unfolding covers_def by (blast intro: announced_more)

lemma covers_Made: "covers host prefix tr W \<Longrightarrow> covers host prefix (tr @ [Made json]) W"
  unfolding covers_snoc unfolding covers_def by (blast intro: announced_more)

lemma covers_announced:
  assumes "covers host prefix tr (insert p W)" and "\<bar>ts\<bar> < 2 ^ 63"
  shows "covers host prefix (tr @ [Made (build_json ts (type_str ev) p host)]) W"
proof -
  have "announced host p (h @ [Made (build_json ts (type_str ev) p host)])" for h
    using assms(2) by (force simp: announced_def)
  with assms(1) show ?thesis unfolding covers_snoc unfolding covers_def by (blast intro: announced_more)
qed

lemma covers_mono: "covers host prefix tr W \<Longrightarrow> W \<subseteq> W' \<Longrightarrow> covers host prefix tr W'"
  unfolding covers_def by blast

subsection \<open>The handler and the debouncer\<close>

fun fired_path :: "sent \<Rightarrow> string set" where
  "fired_path (Fired p _) = {p}"
| "fired_path (Renamed _ _) = {}"

fun sent_ok :: "sent \<Rightarrow> bool" where
  "sent_ok (Fired p _) \<longleftrightarrow> length p \<le> max_path"
| "sent_ok (Renamed p q) \<longleftrightarrow> length p \<le> max_path \<and> length q \<le> max_path"

definition ctx_ok :: "event_ctx \<Rightarrow> bool" where
  "ctx_ok ctx \<longleftrightarrow> (\<forall>p \<in> waiting (ctx_debouncer ctx). length p \<le> max_path) \<and> length (pending_rename_from ctx) \<le> max_path"

lemma on_event_paths:
  assumes "on_event now p ev d = (out, d')"
  shows "waiting d' \<union> fst ` set out \<subseteq> insert p (waiting d)" and "insert p (waiting d) \<subseteq> waiting d' \<union> fst ` set out"
proof -
  show "waiting d' \<union> fst ` set out \<subseteq> insert p (waiting d)"
    using assms by (auto simp: on_event_def erase_keys split: if_splits option.splits del: imageE)
  show "insert p (waiting d) \<subseteq> waiting d' \<union> fst ` set out"
    using on_event_seen [OF assms] deb_step_keeps [of _ d "Event now p ev" out d'] assms by auto
qed

lemma fired_path_map: "(\<Union>x \<in> set (map (\<lambda>(p, e). Fired p e) out). fired_path x) = fst ` set out"
  by force

lemma handle_event_cases [consumes 1, case_names idle event]:
  assumes "handle_event now evt ctx = (out, ctx')"
  obtains "out = [] \<or> out = [Renamed (pending_rename_from ctx) (build_path evt)]"
      "ctx_debouncer ctx' = ctx_debouncer ctx" "\<not> watched (watch_prefix ctx) evt" "watch_prefix ctx' = watch_prefix ctx"
      "pending_rename_from ctx' \<in> {pending_rename_from ctx, build_path evt}"
    | fired d where "on_event now (build_path evt) (event_type evt) (ctx_debouncer ctx) = (fired, d)"
      "out = map (\<lambda>(p, e). Fired p e) fired" "ctx' = ctx\<lparr>has_pending_rename := False, ctx_debouncer := d\<rparr>"
proof -
  consider "event_type evt = EVENT_RENAME_FROM" | "event_type evt = EVENT_RENAME_TO"
    | "event_type evt \<notin> {EVENT_RENAME_FROM, EVENT_RENAME_TO}" by blast
  then show thesis
  proof cases
    case 1
    with assms show thesis by (intro that(1)) (auto simp: handle_event_def watched_def)
  next
    case 2
    with assms show thesis
      by (intro that(1)) (auto simp: handle_event_def watched_def event_types Let_def split: if_splits)
  next
    case 3
    obtain fired d where fired: "on_event now (build_path evt) (event_type evt) (ctx_debouncer ctx) = (fired, d)" by fastforce
    show thesis
    proof (cases "startswith (build_path evt) (watch_prefix ctx)")
      case True
      with 3 fired assms show thesis by (intro that(2) [of fired d]) (auto simp: handle_event_def Let_def)
    next
      case False
      with 3 assms show thesis by (intro that(1)) (auto simp: handle_event_def watched_def Let_def)
    qed
  qed
qed

lemma handle_event_paths:
  assumes "handle_event now evt ctx = (out, ctx')"
  shows "waiting (ctx_debouncer ctx) \<subseteq> waiting (ctx_debouncer ctx') \<union> (\<Union>x \<in> set out. fired_path x) \<and>
    (watched (watch_prefix ctx) evt \<longrightarrow> build_path evt \<in> waiting (ctx_debouncer ctx') \<union> (\<Union>x \<in> set out. fired_path x)) \<and>
    watch_prefix ctx' = watch_prefix ctx \<and>
    (ctx_ok ctx \<and> length (build_path evt) \<le> max_path \<longrightarrow> ctx_ok ctx' \<and> (\<forall>x \<in> set out. sent_ok x))"
  using assms
proof (cases rule: handle_event_cases)
  case idle
  then show ?thesis by (auto simp: ctx_ok_def)
next
  case (event fired d)
  note paths = on_event_paths [OF event(1)]
  have out: "(\<Union>x \<in> set out. fired_path x) = fst ` set fired" unfolding event(2) by (rule fired_path_map)
  have sent: "(\<forall>x \<in> set out. sent_ok x) \<longleftrightarrow> (\<forall>p \<in> fst ` set fired. length p \<le> max_path)" unfolding event(2) by force
  have ctx: "ctx_debouncer ctx' = d" "watch_prefix ctx' = watch_prefix ctx" "pending_rename_from ctx' = pending_rename_from ctx"
    by (simp_all add: event(3))
  have "(watched P evt \<longrightarrow> x \<in> W' \<union> F) \<and> (W \<subseteq> W' \<union> F) \<and> ((\<forall>p \<in> W. Q p) \<and> Q x \<longrightarrow> (\<forall>p \<in> W'. Q p) \<and> (\<forall>p \<in> F. Q p))"
    if "W' \<union> F \<subseteq> insert x W" "insert x W \<subseteq> W' \<union> F" for W W' F :: "string set" and x P Q
    using that by blast
  from this [OF paths] have sets: "(watched (watch_prefix ctx) evt \<longrightarrow> build_path evt \<in> waiting d \<union> fst ` set fired) \<and>
      waiting (ctx_debouncer ctx) \<subseteq> waiting d \<union> fst ` set fired \<and>
      ((\<forall>p \<in> waiting (ctx_debouncer ctx). length p \<le> max_path) \<and> length (build_path evt) \<le> max_path \<longrightarrow>
        (\<forall>p \<in> waiting d. length p \<le> max_path) \<and> (\<forall>p \<in> fst ` set fired. length p \<le> max_path))" .
  show ?thesis unfolding out sent ctx_ok_def ctx using sets by argo
qed

lemma tick_paths: "waiting d = waiting (snd (tick now d)) \<union> fst ` set (fst (tick now d))"
  by (force simp: tick_def)

lemma flush_all_paths: "waiting (snd (flush_all d)) = {}" "fst ` set (fst (flush_all d)) = waiting d"
  by (force simp: flush_all_def)+

subsection \<open>The invariant of the agent\<close>

text \<open>
  \<open>c\<close> says whether there is a Kafka client, \<open>A\<close> is what there was at the start, \<open>H\<close> the paths in hand: taken from the debouncer, their messages
  not built yet.
\<close>

definition agent_inv :: "bool \<Rightarrow> ('w \<Rightarrow> kafka_view) \<Rightarrow> bool \<Rightarrow> string multiset \<Rightarrow> string set \<Rightarrow> 'w agent \<Rightarrow> bool" where
  "agent_inv healthy see c A H s \<longleftrightarrow> A + mset (built s) \<subseteq># held see s \<and> rk_ptr s = c \<and>
     covers (ag_hostname s) (watch_prefix (ectx s)) (trace s) (waiting (ctx_debouncer (ectx s)) \<union> H) \<and>
     provided healthy (tidy see s \<and> ctx_ok (ectx s) \<and> length (ag_hostname s) \<le> 255)"

lemma built_snoc [simp]: "built (s\<lparr>trace := trace s @ [Made json]\<rparr>) = built s @ [json]" "built (s\<lparr>trace := trace s @ [Got evt]\<rparr>) = built s"
  by (simp_all add: built_def)

lemma built_cong: "trace t = trace s \<Longrightarrow> built t = built s"
  by (simp add: built_def)

lemma inv_moves:
  assumes "agent_inv healthy see c A H s" and "moves healthy see [] [] s t"
  shows "agent_inv healthy see c A H t"
proof -
  have same: "trace t = trace s" "ectx t = ectx s" "ag_hostname t = ag_hostname s" "rk_ptr t = rk_ptr s"
    using assms(2) by (simp_all add: moves_def same_def)
  have "A + mset (built s) \<subseteq># held see s" "held see s \<subseteq># held see t" using assms by (simp_all add: agent_inv_def moves_def)
  then have "A + mset (built t) \<subseteq># held see t" unfolding built_cong [OF same(1)] by (rule subset_mset.order_trans)
  moreover have "healthy \<Longrightarrow> tidy see s \<Longrightarrow> tidy see t" using assms(2) by (simp add: moves_def)
  ultimately show ?thesis using assms(1) same by (auto simp: agent_inv_def provided_def)
qed

lemma inv_quiet:
  assumes "agent_inv healthy see c A H s" and "see (outside t) = see (outside s)" and "ag_wal t = ag_wal s" and "lost t = lost s"
    and "trace t = trace s" and "ectx t = ectx s" and "ag_hostname t = ag_hostname s" and "rk_ptr t = rk_ptr s"
  shows "agent_inv healthy see c A H t"
  using assms by (simp add: agent_inv_def held_def tidy_def built_def)

lemma inv_fields [simp]:
  "agent_inv healthy see c A H (s\<lparr>last_stats := x\<rparr>) = agent_inv healthy see c A H s"
  "agent_inv healthy see c A H (s\<lparr>prev_drops := y\<rparr>) = agent_inv healthy see c A H s"
  "agent_inv healthy see c A H (s\<lparr>last_wal_retry := x\<rparr>) = agent_inv healthy see c A H s"
  by (simp_all add: agent_inv_def held_def tidy_def built_def)

text \<open>
  How a run ends, with status 0 or 1: every message that was there or was built is accounted for; a run
  that got as far as the main loop has announced every change, and on a healthy machine owes no report.
\<close>

definition ends_well :: "bool \<Rightarrow> ('w \<Rightarrow> kafka_view) \<Rightarrow> string multiset \<Rightarrow> int \<Rightarrow> 'w agent \<Rightarrow> bool" where
  "ends_well healthy see A status t \<longleftrightarrow> A + mset (built t) \<subseteq># held see t \<and>
     (status = 0 \<and> covers (ag_hostname t) (watch_prefix (ectx t)) (trace t) {} \<and>
        provided healthy (unreported (see (outside t)) = {#} \<and> (\<forall>(why, json) \<in> set (lost t). why = Over_limit)) \<or>
      status = 1 \<and> trace t = [])"

text \<open>A message that was built and put somewhere.\<close>

lemma inv_sent:
  assumes "agent_inv healthy see c A H s" and "moves healthy see [json] [] (s\<lparr>outside := w, trace := trace s @ [Made json]\<rparr>) t"
    and "see w = see (outside s)" and "provided healthy (small json)"
    and "covers (ag_hostname s) (watch_prefix (ectx s)) (trace s @ [Made json]) (waiting (ctx_debouncer (ectx s)) \<union> H')"
  shows "agent_inv healthy see c A H' t"
proof -
  let ?s = "s\<lparr>outside := w, trace := trace s @ [Made json]\<rparr>"
  have same: "trace t = trace s @ [Made json]" "ectx t = ectx s" "ag_hostname t = ag_hostname s" "rk_ptr t = rk_ptr s"
    using assms(2) by (simp_all add: moves_def same_def)
  have built: "built t = built s @ [json]" by (simp add: built_def same(1))
  have held: "held see ?s = held see s" "tidy see ?s = tidy see s" using assms(3) by (simp_all add: held_def tidy_def)
  have "A + mset (built s) + {#json#} \<subseteq># held see s + {#json#}" using assms(1) by (simp add: agent_inv_def)
  moreover have "held see s + {#json#} \<subseteq># held see t" using assms(2) held by (simp add: moves_def)
  ultimately have "A + mset (built s) + {#json#} \<subseteq># held see t" by (rule subset_mset.order_trans)
  then have "A + mset (built t) \<subseteq># held see t" by (simp add: built add.assoc)
  moreover have "provided healthy (tidy see s \<longrightarrow> tidy see t)" using assms(2,4) held by (simp add: moves_def provided_def)
  ultimately show ?thesis using assms(1,5) by (simp add: agent_inv_def same provided_def)
qed

context agent_env
begin

abbreviation inv :: "bool \<Rightarrow> string multiset \<Rightarrow> string set \<Rightarrow> 'w agent \<Rightarrow> bool" where
  "inv c A H s \<equiv> agent_inv healthy see c A H s"

lemma send_new_inv:
  assumes "inv c A H s" and "\<And>ts. \<bar>ts\<bar> < 2 ^ 63 \<Longrightarrow> provided healthy (small (build ts (ag_hostname s)))"
    and "\<And>ts. \<bar>ts\<bar> < 2 ^ 63 \<Longrightarrow> covers (ag_hostname s) (watch_prefix (ectx s)) (trace s @ [Made (build ts (ag_hostname s))])
      (waiting (ctx_debouncer (ectx s)) \<union> H')"
  shows "wp False (send_new K OS build) (\<lambda>_ t. inv c A H' t \<and> ectx t = ectx s) (\<lambda>_ _. False) s"
proof -
  have "wp False (bind_py (kafka_send K OS (build ts (ag_hostname s)) (ag_hostname s)) (\<lambda>ok.
      if ok then modify_py (\<lambda>s. s\<lparr>kafka_sent := kafka_sent s + 1\<rparr>) else return_py ())) (\<lambda>_ t. inv c A H' t \<and> ectx t = ectx s) (\<lambda>_ _. False)
      (s\<lparr>outside := w, trace := trace s @ [Made (build ts (ag_hostname s))]\<rparr>)"
    if "see w = see (outside s)" "\<bar>ts\<bar> < 2 ^ 63" for w ts
  proof (rule wp_bindI [OF kafka_send_moves])
    fix ok t
    assume put: "puts [build ts (ag_hostname s)] [] (s\<lparr>outside := w, trace := trace s @ [Made (build ts (ag_hostname s))]\<rparr>) t"
    from put have "inv c A H' t" by (rule inv_sent [OF assms(1) _ that(1) assms(2,3) [OF that(2)]])
    moreover from put have "ectx t = ectx s" by (simp add: moves_def same_def)
    ultimately show "wp False (if ok then modify_py (\<lambda>s. s\<lparr>kafka_sent := kafka_sent s + 1\<rparr>) else return_py ())
        (\<lambda>_ t. inv c A H' t \<and> ectx t = ectx s) (\<lambda>_ _. False) t"
      by (auto simp: wp_rules intro: inv_quiet)
  qed
  then show ?thesis
    unfolding send_new_def wp_bind [of _ "call (system_ms OS)"] wp_call
    by (auto simp: wp_bind [of _ "get_py _"] wp_get Let_def wp_seq wp_modify intro!: gives_wp [OF system_ms])
qed

lemma send_event_inv:
  assumes "inv c A (insert p H) s" and "provided healthy (length p \<le> max_path)"
  shows "wp False (send_event K OS p ev) (\<lambda>_ t. inv c A H t \<and> ectx t = ectx s) (\<lambda>_ _. False) s"
  unfolding send_event_def
proof (rule send_new_inv [OF assms(1)])
  fix ts :: int assume ts: "\<bar>ts\<bar> < 2 ^ 63"
  show "provided healthy (small (build_json ts (type_str ev) p (ag_hostname s)))"
    using assms message_small(1) [OF ts, of "ag_hostname s" p p ev] by (simp add: provided_def agent_inv_def)
  show "covers (ag_hostname s) (watch_prefix (ectx s)) (trace s @ [Made (build_json ts (type_str ev) p (ag_hostname s))])
      (waiting (ctx_debouncer (ectx s)) \<union> H)"
    by (rule covers_announced [OF _ ts]) (use assms(1) in \<open>simp add: agent_inv_def\<close>)
qed

lemma on_rename_inv:
  assumes "inv c A H s" and "provided healthy (length p \<le> max_path \<and> length q \<le> max_path)"
  shows "wp False (on_rename K OS p q) (\<lambda>_ t. inv c A H t \<and> ectx t = ectx s) (\<lambda>_ _. False) s"
  unfolding on_rename_def
proof (rule send_new_inv [OF assms(1)])
  fix ts :: int assume ts: "\<bar>ts\<bar> < 2 ^ 63"
  show "provided healthy (small (rename_json ts p q (ag_hostname s)))"
    using assms message_small(2) [OF ts, of "ag_hostname s" p q] by (simp add: provided_def agent_inv_def)
  show "covers (ag_hostname s) (watch_prefix (ectx s)) (trace s @ [Made (rename_json ts p q (ag_hostname s))])
      (waiting (ctx_debouncer (ectx s)) \<union> H)"
    by (rule covers_Made) (use assms(1) in \<open>simp add: agent_inv_def\<close>)
qed

lemma pass_on_inv:
  assumes "inv c A (\<Union>x \<in> set outs. fired_path x) s" and "provided healthy (\<forall>x \<in> set outs. sent_ok x)"
  shows "wp False (for_py outs (pass_on K OS)) (\<lambda>_. inv c A {}) (\<lambda>_ _. False) s"
proof -
  let ?I = "\<lambda>xs s. inv c A (\<Union>x \<in> set xs. fired_path x) s \<and> provided healthy (\<forall>x \<in> set xs. sent_ok x)"
  have "wp False (for_py outs (pass_on K OS)) (\<lambda>_. ?I []) (\<lambda>_ _. False) s"
  proof (rule wp_for [where I = ?I])
    fix x xs t
    assume t: "?I (x # xs) t"
    show "wp False (pass_on K OS x) (\<lambda>_. ?I xs) (\<lambda>_ _. False) t"
    proof (cases x)
      case (Fired p ev)
      have "wp False (send_event K OS p ev) (\<lambda>_ u. inv c A (\<Union>x \<in> set xs. fired_path x) u \<and> ectx u = ectx t) (\<lambda>_ _. False) t"
        by (rule send_event_inv) (use t Fired in \<open>simp_all add: provided_def\<close>)
      then show ?thesis using t Fired by (auto simp: provided_def elim: wp_mono)
    next
      case (Renamed p q)
      have "wp False (on_rename K OS p q) (\<lambda>_ u. inv c A (\<Union>x \<in> set xs. fired_path x) u \<and> ectx u = ectx t) (\<lambda>_ _. False) t"
        by (rule on_rename_inv) (use t Renamed in \<open>simp_all add: provided_def\<close>)
      then show ?thesis using t Renamed by (auto simp: provided_def elim: wp_mono)
    qed
  qed (use assms in simp)
  then show ?thesis by (rule wp_mono) auto
qed

lemma run_handler_inv:
  assumes "inv c A {} s" and "event_ok evt"
  shows "wp False (run_handler K OS evt) (\<lambda>_. inv c A {}) (\<lambda>_ _. False) s"
proof -
  have "wp False (for_py out (pass_on K OS)) (\<lambda>_. inv c A {}) (\<lambda>_ _. False) (s\<lparr>outside := w, ectx := ctx, trace := trace s @ [Got evt]\<rparr>)"
    if w: "see w = see (outside s)" and out: "handle_event now evt (ectx s) = (out, ctx)" for w now out ctx
  proof (rule pass_on_inv)
    note paths = handle_event_paths [OF out]
    have "covers (ag_hostname s) (watch_prefix ctx) (trace s @ [Got evt]) (waiting (ctx_debouncer ctx) \<union> (\<Union>x \<in> set out. fired_path x))"
      by (rule covers_Got [where W = "waiting (ctx_debouncer (ectx s))"]) (use assms(1) paths in \<open>auto simp: agent_inv_def\<close>)
    moreover have "provided healthy (ctx_ok ctx \<and> (\<forall>x \<in> set out. sent_ok x))"
      using assms paths length_build_path [OF assms(2)] by (simp add: agent_inv_def provided_def)
    ultimately show "inv c A (\<Union>x \<in> set out. fired_path x) (s\<lparr>outside := w, ectx := ctx, trace := trace s @ [Got evt]\<rparr>)"
        "provided healthy (\<forall>x \<in> set out. sent_ok x)"
      using assms(1) w by (auto simp: agent_inv_def held_def tidy_def built_def provided_def)
  qed
  then show ?thesis
    unfolding run_handler_def wp_bind [of _ "call (steady_ns OS)"] wp_call
    by (auto simp: wp_bind wp_get wp_seq wp_modify split: prod.split intro!: wp_calm [OF host_calls(4)])
qed

lemma fire_inv:
  assumes "inv c A {} s" and "waiting (ctx_debouncer (ectx s)) = waiting d \<union> fst ` set out"
  shows "wp False (fire K OS (out, d)) (\<lambda>_ t. inv c A {} t \<and> ctx_debouncer (ectx t) = d) (\<lambda>_ _. False) s"
proof -
  let ?s = "s\<lparr>ectx := (ectx s)\<lparr>ctx_debouncer := d\<rparr>\<rparr>"
  let ?I = "\<lambda>(xs :: fired) s. inv c A (fst ` set xs) s \<and> provided healthy (\<forall>(p, ev) \<in> set xs. length p \<le> max_path) \<and> ctx_debouncer (ectx s) = d"
  have "wp False (for_py out (\<lambda>(p, ev). send_event K OS p ev)) (\<lambda>_. ?I []) (\<lambda>_ _. False) ?s"
  proof (rule wp_for [where I = ?I])
    fix x xs t
    assume t: "?I (x # xs) t"
    obtain p ev where x: "x = (p, ev)" by (cases x)
    have "wp False (send_event K OS p ev) (\<lambda>_ u. inv c A (fst ` set xs) u \<and> ectx u = ectx t) (\<lambda>_ _. False) t"
      by (rule send_event_inv) (use t x in \<open>simp_all add: provided_def\<close>)
    then show "wp False (case x of (p, ev) \<Rightarrow> send_event K OS p ev) (\<lambda>_. ?I xs) (\<lambda>_ _. False) t"
      using t x by (auto simp: provided_def elim: wp_mono)
  next
    have "(\<forall>p \<in> waiting d. length p \<le> max_path) \<and> (\<forall>(p, ev) \<in> set out. length p \<le> max_path)" if healthy
    proof -
      have "\<forall>p \<in> waiting d \<union> fst ` set out. length p \<le> max_path"
        using assms that unfolding agent_inv_def provided_def ctx_ok_def by simp
      then show ?thesis by force
    qed
    then show "?I out ?s"
      using assms by (auto simp: agent_inv_def held_def tidy_def built_def ctx_ok_def provided_def)
  qed
  then show ?thesis unfolding fire_def by (simp add: wp_seq wp_modify) (rule wp_mono, assumption, auto)
qed

lemma run_tick_inv: "inv c A {} s \<Longrightarrow> wp False (run_tick K OS) (\<lambda>_. inv c A {}) (\<lambda>_ _. False) s"
proof -
  assume s: "inv c A {} s"
  have "wp False (fire K OS (tick now (ctx_debouncer (ectx s)))) (\<lambda>_. inv c A {}) (\<lambda>_ _. False) (s\<lparr>outside := w\<rparr>)"
    if "see w = see (outside s)" for w now
  proof -
    obtain out d where out: "tick now (ctx_debouncer (ectx s)) = (out, d)" by fastforce
    have "inv c A {} (s\<lparr>outside := w\<rparr>)" by (rule inv_quiet [OF s]) (simp_all add: that)
    from fire_inv [OF this, of d out] show ?thesis
      using tick_paths [of "ctx_debouncer (ectx s)" now] by (auto simp: out elim!: wp_mono)
  qed
  then show ?thesis
    unfolding run_tick_def wp_bind [of _ "call (steady_ns OS)"] wp_call
    by (auto simp: wp_bind wp_get intro!: wp_calm [OF host_calls(4)])
qed

lemma run_flush_all_inv: "inv c A {} s \<Longrightarrow>
    wp False (run_flush_all K OS) (\<lambda>_ t. inv c A {} t \<and> waiting (ctx_debouncer (ectx t)) = {}) (\<lambda>_ _. False) s"
proof -
  assume s: "inv c A {} s"
  obtain out d where out: "flush_all (ctx_debouncer (ectx s)) = (out, d)" by fastforce
  have "waiting d = {}" "fst ` set out = waiting (ctx_debouncer (ectx s))"
    using flush_all_paths [of "ctx_debouncer (ectx s)"] by (simp_all add: out)
  with fire_inv [OF s, of d out] show ?thesis
    by (auto simp: run_flush_all_def wp_bind wp_get out elim!: wp_mono)
qed

lemma inv_call: "gives see P m \<Longrightarrow> inv c A H s \<Longrightarrow> (\<And>x t. P x \<Longrightarrow> inv c A H t \<Longrightarrow> Q x t) \<Longrightarrow> wp d (call m) Q E s"
  unfolding wp_call
proof (erule gives_wp)
  fix x w
  assume "inv c A H s" "see w = see (outside s)" "P x" and Q: "\<And>x t. P x \<Longrightarrow> inv c A H t \<Longrightarrow> Q x t"
  then have "inv c A H (s\<lparr>outside := w\<rparr>)" by (auto elim: inv_quiet)
  with Q \<open>P x\<close> show "Q x (s\<lparr>outside := w\<rparr>)" by simp
qed

lemma inv_of_moves: "inv c A H s \<Longrightarrow> wp False m (\<lambda>_. puts [] [] s) (\<lambda>_ _. False) s \<Longrightarrow> wp False m (\<lambda>_. inv c A H) (\<lambda>_ _. False) s"
  by (erule wp_mono) (auto elim: inv_moves)

lemma periodic_stats_inv:
  assumes "inv c A {} s"
  shows "wp False (periodic_stats OS now) (\<lambda>_. inv c A {}) (\<lambda>_ _. False) s"
  using assms unfolding periodic_stats_def
  by (auto simp: wp_bind wp_get wp_seq wp_modify wp_return intro!: inv_call [OF host_calls(6), of c A "{}"] inv_call [OF fstat, of c A "{}"])

lemma wal_retry_inv:
  assumes "inv c A {} s"
  shows "wp False (wal_retry K OS now) (\<lambda>_. inv c A {}) (\<lambda>_ _. False) s"
  using assms unfolding wal_retry_def
  by (auto simp: wp_bind wp_get wp_seq wp_modify wp_return intro!: inv_call [OF fstat, of c A "{}"] inv_of_moves [OF _ replay_wal_moves])

lemma agent_iter_inv:
  assumes "inv c A {} s"
  shows "wp False (agent_iter K OS) (\<lambda>_. inv c A {}) (\<lambda>_ _. False) s"
proof -
  have turn: "wp False (seq_py (run_tick K OS) (seq_py (kafka_poll K OS 0) (bind_py (call (steady_ns OS)) (\<lambda>now.
      seq_py (periodic_stats OS now) (seq_py (wal_retry K OS now) (return_py True)))))) (\<lambda>_. inv c A {}) (\<lambda>_ _. False) t" if "inv c A {} t" for t
    by (rule wp_seqI [OF run_tick_inv [OF that]], rule wp_seqI [OF inv_of_moves [OF _ kafka_poll_moves]], assumption)
      (auto simp: wp_bind wp_return intro!: inv_call [OF host_calls(4)] wp_seqI [OF periodic_stats_inv] wp_seqI [OF wal_retry_inv])
  have handled: "wp False (for_py evts (run_handler K OS)) (\<lambda>_. inv c A {}) (\<lambda>_ _. False) t"
    if "inv c A {} t" "\<forall>evt \<in> set evts. event_ok evt" for evts t
  proof -
    have "wp False (for_py evts (run_handler K OS)) (\<lambda>_ s. inv c A {} s \<and> (\<forall>evt \<in> set []. event_ok evt)) (\<lambda>_ _. False) t"
      by (rule wp_for [where I = "\<lambda>evts s. inv c A {} s \<and> (\<forall>evt \<in> set evts. event_ok evt)"])
        (use that in \<open>auto intro: wp_mono [OF run_handler_inv]\<close>)
    then show ?thesis by (rule wp_mono) auto
  qed
  show ?thesis
    unfolding agent_iter_def wp_bind [of _ "call (ring_buffer_poll OS 100)"]
    by (rule inv_call [OF events assms]) (auto intro!: wp_seqI [OF handled] turn simp: wp_return)
qed

lemma agent_loop_inv: "inv c A {} s \<Longrightarrow> wp True (agent_loop K OS) (\<lambda>_. inv c A {}) (\<lambda>_ _. False) s"
  unfolding agent_loop_def
proof (rule wp_loop [where I = "\<lambda>_. inv c A {}"])
  fix x t
  assume t: "inv c A {} t"
  have "wp False (bind_py (call (sig_running OS)) (\<lambda>running.
      if running then bind_py (agent_iter K OS) (\<lambda>go_on. return_py (if go_on then Inl () else Inr ())) else return_py (Inr ())))
      (\<lambda>r s. inv c A {} s) (\<lambda>_ _. False) t"
    unfolding wp_bind [of _ "call (sig_running OS)"]
    by (rule inv_call [OF host_calls(5) t]) (auto simp: wp_bind wp_return intro!: wp_mono [OF agent_iter_inv])
  from wp_partial [OF this]
  show "wp True (bind_py (call (sig_running OS)) (\<lambda>running.
      if running then bind_py (agent_iter K OS) (\<lambda>go_on. return_py (if go_on then Inl () else Inr ())) else return_py (Inr ())))
      (\<lambda>r. case r of Inl (_ :: unit) \<Rightarrow> inv c A {} | Inr y \<Rightarrow> inv c A {}) (\<lambda>_ _. False) t"
    by (rule wp_mono) (auto split: sum.split)
qed

text \<open>The state after the shutdown: nothing waits any more.\<close>

definition settled :: "bool \<Rightarrow> string multiset \<Rightarrow> 'w agent \<Rightarrow> bool" where
  "settled c A s \<longleftrightarrow> inv c A {} s \<and> waiting (ctx_debouncer (ectx s)) = {}"

lemma settled_moves: "settled c A s \<Longrightarrow> puts [] [] s t \<Longrightarrow> settled c A t"
  unfolding settled_def by (auto intro: inv_moves) (auto simp: moves_def same_def)

lemma settled_call: "gives see P m \<Longrightarrow> settled c A s \<Longrightarrow> wp False (call m) (\<lambda>_. settled c A) (\<lambda>_ _. False) s"
  unfolding wp_call by (erule gives_wp) (auto simp: settled_def elim!: inv_quiet)

lemma agent_shutdown_settled: "inv c A {} s \<Longrightarrow> wp False (agent_shutdown K OS) (\<lambda>_. settled c A) (\<lambda>_ _. False) s"
proof -
  assume s: "inv c A {} s"
  have flush: "wp False (kafka_flush K OS 15000) (\<lambda>_. settled c A) (\<lambda>_ _. False) t" if "settled c A t" for t
    by (rule wp_mono [OF kafka_flush_moves]) (auto elim: settled_moves [OF that])
  have stats: "wp False (final_stats OS) (\<lambda>_. settled c A) (\<lambda>_ _. False) t" if "settled c A t" for t
    using that unfolding final_stats_def
    by (auto simp: wp_bind wp_return intro!: wp_mono [OF settled_call [OF host_calls(6)]] wp_mono [OF settled_call [OF fstat]])
  show ?thesis
    unfolding agent_shutdown_def
    by (rule wp_seqI [OF run_flush_all_inv [OF s, folded settled_def]], rule wp_seqI [OF stats], assumption,
        rule wp_seqI [OF flush], assumption)
      (auto simp: wp_seq intro!: wp_mono [OF settled_call [OF bpf_calls(4)]] settled_call [OF bpf_calls(5)])
qed

lemma run_agent_settled: "inv c A {} s \<Longrightarrow> wp True (run_agent K OS) (\<lambda>_. settled c A) (\<lambda>_ _. False) s"
proof -
  assume s: "inv c A {} s"
  have rest: "wp True (seq_py (agent_loop K OS) (agent_shutdown K OS)) (\<lambda>_. settled c A) (\<lambda>_ _. False) t" if "inv c A {} t" for t
    by (rule wp_seqI [OF agent_loop_inv [OF that]]) (rule wp_partial [OF agent_shutdown_settled])
  have "wp False (replay_wal K OS 10000) (\<lambda>_. inv c A {}) (\<lambda>_ _. False) s"
    by (rule inv_of_moves [OF s replay_wal_moves])
  then show ?thesis
    unfolding run_agent_def
    by (rule wp_seqI [OF wp_partial])
      (auto simp: wp_bind wp_seq [of _ "modify_py _"] wp_modify intro!: inv_call [OF host_calls(4), of c A "{}"] rest)
qed

text \<open>Start-up: before the first event, with or without a client.\<close>

definition ready :: "string multiset \<Rightarrow> 'w agent \<Rightarrow> bool" where
  "ready A s \<longleftrightarrow> inv (rk_ptr s) A {} s \<and> trace s = []"

lemma ready_call: "gives see P m \<Longrightarrow> ready A s \<Longrightarrow> (\<And>x t. P x \<Longrightarrow> ready A t \<Longrightarrow> Q x t) \<Longrightarrow> wp d (call m) Q E s"
  unfolding wp_call
proof (erule gives_wp)
  fix x w
  assume s: "ready A s" "see w = see (outside s)" "P x" and Q: "\<And>x t. P x \<Longrightarrow> ready A t \<Longrightarrow> Q x t"
  then have "inv (rk_ptr s) A {} (s\<lparr>outside := w\<rparr>)" unfolding ready_def by (auto elim: inv_quiet)
  with Q s show "Q x (s\<lparr>outside := w\<rparr>)" by (simp add: ready_def)
qed

lemma ready_set_rk: "ready A s \<Longrightarrow> wp d (set_rk b b') (\<lambda>_. ready A) E s"
  by (auto simp: set_rk_def wp_modify ready_def agent_inv_def held_def tidy_def built_def)

lemma kafka_create_ready:
  assumes "ready A s"
  shows "wp False (kafka_create K brokers topic) (\<lambda>_. ready A) (\<lambda>_ _. False) s"
proof -
  have conf: "wp False (for_py conf_settings (\<lambda>(key, val). bind_py (call (rd_conf_set K key val)) (\<lambda>_. return_py ()))) (\<lambda>_. ready A) (\<lambda>_ _. False) t"
    if "ready A t" for t
    by (rule wp_for [where I = "\<lambda>_. ready A", OF _ that]) (auto simp: wp_bind wp_return intro!: ready_call [OF kafka_calls(1), of A])
  show ?thesis
    unfolding kafka_create_def wp_bind [of _ "call (rd_conf_set K _ _)"]
    by (rule ready_call [OF kafka_calls(1) assms])
      (auto simp: wp_bind [of _ "call _"] wp_seq [of _ "call _"] intro!: wp_seqI [OF conf] ready_call [OF kafka_calls(2), of A]
        ready_call [OF kafka_calls(3), of A] ready_call [OF kafka_calls(4), of A] ready_set_rk)
qed

lemma attach_and_run_inv:
  assumes "ready A s"
  shows "wp True (attach_and_run K OS) (\<lambda>status t. status = 0 \<and> settled True A t \<or> status = 1 \<and> ready A t) (\<lambda>_ _. False) s"
proof -
  have run: "wp True (seq_py (run_agent K OS) (return_py 0)) (\<lambda>status t. status = (0 :: int) \<and> settled True A t \<or> status = 1 \<and> ready A t) (\<lambda>_ _. False) t"
    if "inv True A {} t" for t
    unfolding wp_seq wp_return by (rule wp_mono [OF run_agent_settled [OF that]]) auto
  show ?thesis
  proof (cases "rk_ptr s")
    case True
    have inv: "inv True A {} s" "trace s = []" using assms True by (simp_all add: ready_def)
    have call: "wp True (call m) Q (\<lambda>_ _. False) t" if "calm see m" "inv True A {} t" "trace t = []"
        "\<And>x u. inv True A {} u \<Longrightarrow> trace u = [] \<Longrightarrow> Q x u" for m :: "('w, 'a) py" and Q t
    proof -
      have "ready A t" using that(2,3) by (simp add: ready_def agent_inv_def)
      moreover have "inv True A {} (t\<lparr>outside := w\<rparr>)" if "see w = see (outside t)" for w
        using that \<open>inv True A {} t\<close> by (auto elim: inv_quiet)
      ultimately show ?thesis using that unfolding wp_call by (intro wp_calm [OF that(1)]) simp
    qed
    have failed: "ready A t" if "inv True A {} t" "trace t = []" for t using that by (simp add: ready_def agent_inv_def)
    show ?thesis
      using inv True unfolding attach_and_run_def
      by (auto simp: wp_bind wp_get wp_return wp_seq [of _ "call _"] intro!: call [OF bpf_calls(1)] call [OF bpf_calls(2)] call [OF bpf_calls(3)]
          call [OF bpf_calls(5)] run failed)
  qed (use assms in \<open>simp add: attach_and_run_def wp_bind wp_get wp_return\<close>)
qed

lemma kafka_delete_ends:
  assumes "status = 0 \<and> settled True A t \<or> status = 1 \<and> ready A t"
  shows "wp False (kafka_delete K OS) (\<lambda>_. ends_well healthy see A status) (\<lambda>_ _. False) t"
proof (rule wp_mono [OF kafka_delete_moves])
  fix u
  assume u: "puts [] [] t u \<and> (rk_ptr t \<longrightarrow> provided healthy (unreported (see (outside u)) = {#}))"
  from assms show "ends_well healthy see A status u"
  proof
    assume t: "status = 0 \<and> settled True A t"
    then have "settled True A u" using u settled_moves by blast
    moreover have "rk_ptr t" using t by (simp add: settled_def agent_inv_def)
    ultimately show ?thesis using t u by (auto simp: ends_well_def settled_def agent_inv_def provided_def tidy_def)
  next
    assume t: "status = 1 \<and> ready A t"
    then have "inv (rk_ptr t) A {} u" using u inv_moves unfolding ready_def by blast
    moreover have "trace u = []" using t u by (simp add: ready_def moves_def same_def)
    ultimately show ?thesis using t by (simp add: ends_well_def agent_inv_def)
  qed
qed simp

text \<open>Before the log is opened: nothing has happened since the state \<open>s\<close>, and the variables are set.\<close>

definition raw :: "'w agent \<Rightarrow> 'w agent \<Rightarrow> bool" where
  "raw s t \<longleftrightarrow> trace t = [] \<and> lost t = [] \<and> see (outside t) = see (outside s) \<and> ag_wal t = ag_wal s"

definition booted :: "'w agent \<Rightarrow> 'w agent \<Rightarrow> bool" where
  "booted s t \<longleftrightarrow> raw s t \<and> ctx_ok (ectx t) \<and> length (ag_hostname t) \<le> 255 \<and> waiting (ctx_debouncer (ectx t)) = {}"

lemma raw_call: "gives see P m \<Longrightarrow> raw s t \<Longrightarrow> (\<And>x u. P x \<Longrightarrow> raw s u \<Longrightarrow> Q x u) \<Longrightarrow> wp d (call m) Q E t"
  unfolding wp_call by (erule gives_wp) (simp add: raw_def)

lemma booted_call: "gives see P m \<Longrightarrow> booted s t \<Longrightarrow> (\<And>x u. P x \<Longrightarrow> booted s u \<Longrightarrow> Q x u) \<Longrightarrow> wp d (call m) Q E t"
  unfolding wp_call by (erule gives_wp) (simp add: booted_def raw_def)

lemma start_state_booted: "raw s t \<Longrightarrow> length host \<le> 255 \<Longrightarrow> booted s (start_state cfg host t)"
  by (simp add: booted_def raw_def start_state_def ctx_ok_def)

lemma mkdirs_booted:
  assumes "booted s t"
  shows "wp False (for_py ds (\<lambda>dir. call (os_mkdir OS dir))) (\<lambda>_. booted s) (\<lambda>_ _. False) t"
  by (rule wp_for [where I = "\<lambda>_. booted s", OF _ assms]) (auto intro!: booted_call [OF host_calls(3), of s])

definition start_of :: "'w agent \<Rightarrow> string multiset" where
  "start_of s = acked (see (outside s)) + mset (wal_records (wal_file (ag_wal s)))"

lemma opened_ready:
  assumes "booted s t" and "provided healthy b" and "unreported (see (outside s)) = {#}"
    and "provided healthy (\<exists>ds. wal_holds (ag_wal s) ds)"
  shows "ready (start_of s) (t\<lparr>ag_wal := wal_open b (ag_wal t)\<rparr>)"
  using assms by (auto simp: ready_def booted_def raw_def start_of_def agent_inv_def held_def tidy_def built_def covers_def
      provided_def wal_open_def wal_holds_def)

lemma hostname_length: "length (case name of None \<Rightarrow> ''unknown'' | Some buf \<Rightarrow> takeWhile (\<lambda>c. c \<noteq> CHR 0x00) (take 255 buf)) \<le> 255"
  by (auto split: option.split intro: order_trans [OF length_takeWhile_le])

lemma agent_main_ends:
  assumes fresh: "trace s = []" "lost s = []" "unreported (see (outside s)) = {#}"
    and log: "provided healthy (\<exists>ds. wal_holds (ag_wal s) ds)"
  shows "wp True (agent_main K OS argv) (ends_well healthy see (start_of s)) (\<lambda>_ _. False) s"
proof -
  have rest: "wp True (bind_py (call (fs_open OS)) (\<lambda>opened.
         seq_py (modify_py (\<lambda>s. s\<lparr>ag_wal := wal_open opened (ag_wal s)\<rparr>))
         (seq_py (kafka_create K brokers topic)
         (bind_py (attach_and_run K OS) (\<lambda>status. seq_py (kafka_delete K OS) (return_py status))))))
      (ends_well healthy see (start_of s)) (\<lambda>_ _. False) t" if "booted s t" for brokers topic t
  proof -
    have ended: "wp True (seq_py (kafka_delete K OS) (return_py status)) (ends_well healthy see (start_of s)) (\<lambda>_ _. False) u"
      if "status = 0 \<and> settled True (start_of s) u \<or> status = 1 \<and> ready (start_of s) u" for status u
      unfolding wp_seq wp_return by (rule wp_partial [OF kafka_delete_ends [OF that]])
    show ?thesis
      unfolding wp_bind [of _ "call (fs_open OS)"]
    proof (rule booted_call [OF fopen that], unfold wp_seq [of _ "modify_py _"] wp_modify)
      fix b u
      assume "provided healthy b" "booted s u"
      then have "ready (start_of s) (u\<lparr>ag_wal := wal_open b (ag_wal u)\<rparr>)" by (intro opened_ready fresh(3) log)
      then show "wp True (seq_py (kafka_create K brokers topic) (bind_py (attach_and_run K OS)
          (\<lambda>status. seq_py (kafka_delete K OS) (return_py status)))) (ends_well healthy see (start_of s)) (\<lambda>_ _. False)
          (u\<lparr>ag_wal := wal_open b (ag_wal u)\<rparr>)"
        by (rule wp_seqI [OF wp_partial [OF kafka_create_ready]]) (rule wp_bindI [OF attach_and_run_inv ended])
    qed
  qed
  have stopped: "ends_well healthy see (start_of s) 1 t" if "raw s t" for t
    using that fresh(3) by (simp add: raw_def ends_well_def held_def built_def start_of_def)
  have raw: "raw s s" using fresh by (simp add: raw_def)
  show ?thesis
    unfolding agent_main_def Let_def wp_bind [of _ "call (parse_file OS _)"]
  proof (rule raw_call [OF host_calls(1) raw], clarsimp simp: wp_return stopped split: prod.split)
    fix t cfg
    assume "raw s t"
    then show "wp True (bind_py (get_hostname OS) (\<lambda>hostname.
        seq_py (modify_py (start_state cfg hostname))
        (seq_py (for_py (mkdir_args (dir_of (wal_path cfg))) (\<lambda>dir. call (os_mkdir OS dir)))
        (bind_py (call (fs_open OS)) (\<lambda>opened.
         seq_py (modify_py (\<lambda>s. s\<lparr>ag_wal := wal_open opened (ag_wal s)\<rparr>))
         (seq_py (kafka_create K (kafka_brokers cfg) (kafka_topic cfg))
         (bind_py (attach_and_run K OS) (\<lambda>status. seq_py (kafka_delete K OS) (return_py status)))))))))
      (ends_well healthy see (start_of s)) (\<lambda>_ _. False) t"
      unfolding get_hostname_def wp_bind [of _ "bind_py _ _"] wp_bind [of _ "call (os_gethostname OS)"] wp_return
        wp_seq [of _ "modify_py _"] wp_modify
      by (rule raw_call [OF host_calls(2)])
        (rule wp_seqI [OF wp_partial [OF mkdirs_booted [OF start_state_booted [OF _ hostname_length]]]], assumption, rule rest)
  qed
qed

end

end
