(* ===== verification/AgentStop.thy ===== *)
theory AgentStop
  imports AgentRun
begin

text \<open>
  The agent stops when it is told to. Every call it makes returns, and a bound on how often the flag \<open>running\<close> will
  still be seen set makes the main loop end: the contract \<open>agent_signal\<close>, which says nothing of Kafka's messages
  or of the disk.
\<close>

subsection \<open>Computations that return and do not raise a bound\<close>

named_theorems still_rules \<open>how computations that return are put together\<close>

definition still :: "('s \<Rightarrow> nat) \<Rightarrow> ('s, 'a) py \<Rightarrow> bool" where
  "still \<mu> m \<longleftrightarrow> (\<forall>s. \<exists>r t. m s = Some (r, t) \<and> \<mu> t \<le> \<mu> s)"

lemma stillD: "still \<mu> m \<Longrightarrow> \<exists>r t. m s = Some (r, t) \<and> \<mu> t \<le> \<mu> s"
  by (simp add: still_def)

lemma still_basic [still_rules]: "still \<mu> (return_py x)" "still \<mu> (get_py f)"
  by (simp_all add: still_def py_defs)

lemma still_modify [still_rules]: "(\<And>s. \<mu> (f s) \<le> \<mu> s) \<Longrightarrow> still \<mu> (modify_py f)"
  by (simp add: still_def py_defs)

lemma still_bind [still_rules]:
  assumes "still \<mu> m" and "\<And>x. still \<mu> (f x)"
  shows "still \<mu> (bind_py m f)"
  unfolding still_def
proof
  fix s
  obtain r t where m: "m s = Some (r, t)" "\<mu> t \<le> \<mu> s" using stillD [OF assms(1)] by blast
  show "\<exists>r u. bind_py m f s = Some (r, u) \<and> \<mu> u \<le> \<mu> s"
  proof (cases r)
    case (Inl e)
    with m show ?thesis by (simp add: bind_py_def)
  next
    case (Inr x)
    obtain r' u where "f x t = Some (r', u)" "\<mu> u \<le> \<mu> t" using stillD [OF assms(2)] by blast
    with m Inr show ?thesis by (simp add: bind_py_def)
  qed
qed

lemma still_seq [still_rules]: "still \<mu> m \<Longrightarrow> still \<mu> n \<Longrightarrow> still \<mu> (seq_py m n)"
  unfolding seq_py_def by (rule still_bind)

lemma still_for [still_rules]: "(\<And>x. still \<mu> (f x)) \<Longrightarrow> still \<mu> (for_py xs f)"
  by (induction xs) (simp_all add: still_rules)

lemma still_if [still_rules]: "(b \<Longrightarrow> still \<mu> m) \<Longrightarrow> (\<not> b \<Longrightarrow> still \<mu> n) \<Longrightarrow> still \<mu> (if b then m else n)"
  by simp

lemma still_prod [still_rules]: "(\<And>x y. still \<mu> (f x y)) \<Longrightarrow> still \<mu> (case p of (x, y) \<Rightarrow> f x y)"
  by (cases p) simp

lemma still_call [still_rules]: "still rank m \<Longrightarrow> still (\<lambda>s. rank (outside s)) (call m)"
  unfolding still_def
proof
  fix s :: "'a agent"
  assume "\<forall>w. \<exists>r w'. m w = Some (r, w') \<and> rank w' \<le> rank w"
  then obtain r w' where "m (outside s) = Some (r, w')" "rank w' \<le> rank (outside s)" by blast
  then show "\<exists>r t. call m s = Some (r, t) \<and> rank (outside t) \<le> rank (outside s)" by (simp add: call_def)
qed

subsection \<open>The contract\<close>

locale agent_signal =
  fixes rank :: "'w \<Rightarrow> nat" and K :: "'w rdkafka" and OS :: "'w agent_os"
  assumes kafka_returns [still_rules]: "still rank (rd_conf_set K c v)" "still rank (rd_kafka_new K)"
      "still rank (rd_topic_new K tp)" "still rank (rd_produce K json key)" "still rank (rd_poll K t)"
      "still rank (rd_flush K t)" "still rank (rd_destroy K)"
    and host_returns [still_rules]: "still rank (parse_file OS path)" "still rank (os_gethostname OS)" "still rank (os_mkdir OS path)"
      "still rank (system_ms OS)" "still rank (steady_ns OS)" "still rank (percpu_counter OS i)"
    and file_returns [still_rules]: "still rank (fs_open OS)" "still rank (fs_fwrite OS rec)" "still rank (fs_readable OS)"
      "still rank (fs_clear OS)" "still rank (fs_stat OS)"
    and bpf_returns [still_rules]: "still rank (bpf_open_and_load OS)" "still rank (bpf_attach OS)" "still rank (ring_buffer_new OS)"
      "still rank (ring_buffer_poll OS t)" "still rank (ring_buffer_free OS)" "still rank (bpf_destroy OS)"
    and signal: "\<exists>running w'. sig_running OS w = Some (Inr running, w') \<and> rank w' \<le> rank w \<and> (running \<longrightarrow> rank w' < rank w)"
begin

abbreviation returns :: "('w agent, 'a) py \<Rightarrow> bool" where
  "returns m \<equiv> still (\<lambda>s. rank (outside s)) m"

lemma on_fail_returns [still_rules]: "returns (on_fail OS json)"
  unfolding on_fail_def append_json_def by (intro still_rules) (simp_all add: wal_appended_def Let_def)

lemma producer_returns [still_rules]:
  "returns (kafka_create K brokers topic)" "returns (kafka_send K OS json key)" "returns (dr_msg_cb OS rep)"
  "returns (kafka_poll K OS t)" "returns (kafka_flush K OS t)" "returns (kafka_delete K OS)"
  unfolding kafka_create_def kafka_send_def dr_msg_cb_def kafka_poll_def kafka_flush_def kafka_delete_def set_rk_def
  by (intro still_rules; simp)+

lemma handling_returns [still_rules]:
  "returns (send_new K OS build)" "returns (send_event K OS path ev)" "returns (on_rename K OS old new)"
  unfolding send_event_def on_rename_def send_new_def Let_def by (intro still_rules; simp)+

lemma pass_on_returns [still_rules]: "returns (pass_on K OS x)"
  by (cases x) (simp_all add: still_rules)

lemma events_return [still_rules]:
  "returns (run_handler K OS evt)" "returns (fire K OS x)" "returns (run_tick K OS)" "returns (run_flush_all K OS)"
  unfolding run_tick_def run_flush_all_def fire_def run_handler_def by (intro still_rules; simp)+

lemma upkeep_returns [still_rules]:
  "returns (replay_wal K OS t)" "returns (periodic_stats OS now)" "returns (wal_retry K OS now)" "returns (final_stats OS)"
  "returns (agent_shutdown K OS)"
  unfolding agent_shutdown_def wal_retry_def replay_wal_def truncate_log_def resend_def periodic_stats_def final_stats_def
  by (intro still_rules; simp)+

lemma agent_iter_returns [still_rules]: "returns (agent_iter K OS)"
  unfolding agent_iter_def by (intro still_rules)

text \<open>Each round of the loop sees the flag once.\<close>

lemma agent_loop_returns [still_rules]: "returns (agent_loop K OS)"
  unfolding still_def
proof
  fix s
  show "\<exists>r t. agent_loop K OS s = Some (r, t) \<and> rank (outside t) \<le> rank (outside s)"
  proof (induction "rank (outside s)" arbitrary: s rule: less_induct)
    case less
    let ?f = "\<lambda>_ :: unit. bind_py (call (sig_running OS)) (\<lambda>running.
      if running then bind_py (agent_iter K OS) (\<lambda>go_on. return_py (if go_on then Inl () else Inr ()))
      else return_py (Inr ()))"
    have loop: "agent_loop K OS t = bind_py (?f ()) (\<lambda>r. case r of Inl _ \<Rightarrow> agent_loop K OS | Inr y \<Rightarrow> return_py y) t" for t
      unfolding agent_loop_def by (subst loop_py.simps) (simp cong: sum.case_cong)
    obtain running w where sig: "sig_running OS (outside s) = Some (Inr running, w)" "rank w \<le> rank (outside s)"
      "running \<longrightarrow> rank w < rank (outside s)" using signal by blast
    then have call: "call (sig_running OS) s = Some (Inr running, s\<lparr>outside := w\<rparr>)" by (simp add: call_def)
    show ?case
    proof (cases running)
      case True
      obtain r t where iter: "agent_iter K OS (s\<lparr>outside := w\<rparr>) = Some (r, t)" "rank (outside t) \<le> rank w"
        using stillD [OF agent_iter_returns, of "s\<lparr>outside := w\<rparr>"] by auto
      have "rank (outside t) < rank (outside s)" using iter(2) sig(3) True by linarith
      with less [of t] iter call True show ?thesis
        by (cases r) (fastforce simp: loop [of s] bind_py_def return_py_def)+
    qed (use sig call in \<open>simp add: loop [of s] bind_py_def return_py_def\<close>)
  qed
qed

lemma agent_main_returns: "returns (agent_main K OS argv)"
  unfolding agent_main_def attach_and_run_def run_agent_def get_hostname_def Let_def
  by (intro still_rules; simp add: start_state_def)

end

end
