(* ===== verification/AgentSim.thy ===== *)
theory AgentSim
  imports AgentStop
begin

text \<open>
  A scripted machine for the agent (a Kafka client that fails as the script says, a ring buffer, a
  clock, a disk that may cut writes short), the proof that it meets the contract of \<open>AgentLedger\<close>, and the
  delivery properties of the agent as a whole.
\<close>

subsection \<open>The scripted machine\<close>

text \<open>
  \<open>as_errs\<close> says which of the next reports are failures and \<open>as_cuts\<close> how many bytes of the next
  records reach the disk (none left: all go well); \<open>as_batches\<close> are the events of the next polls,
  \<open>as_rounds\<close> how often \<open>running\<close> is still true. A look at the clock takes 11 seconds.
\<close>

record ag_script =
  as_queue :: "string list"
  as_acked :: "string list"
  as_errs :: "bool list"
  as_cuts :: "nat list"
  as_batches :: "file_event list list"
  as_rounds :: nat
  as_clock :: int
  as_toml :: "(string \<times> toml) list option"

definition as_see :: "ag_script \<Rightarrow> kafka_view" where
  "as_see w = \<lparr>unreported = mset (as_queue w), acked = mset (as_acked w)\<rparr>"

text \<open>All queued messages are reported, with the errors of the script.\<close>

definition serve :: "(ag_script, delivery_report list) py" where
  "serve = (\<lambda>w. let q = as_queue w; errs = as_errs w @ replicate (length q) False;
     reps = map (\<lambda>(e, j). \<lparr>rep_err = e, rep_json = j\<rparr>) (zip errs q) in
     Some (Inr reps, w\<lparr>as_queue := [], as_errs := drop (length q) (as_errs w),
       as_acked := as_acked w @ map rep_json (filter (\<lambda>rep. \<not> rep_err rep) reps)\<rparr>))"

definition sim_rdkafka :: "ag_script rdkafka" where
  "sim_rdkafka = \<lparr>
     rd_conf_set = (\<lambda>_ _. return_py True),
     rd_kafka_new = return_py True,
     rd_topic_new = (\<lambda>_. return_py True),
     rd_produce = (\<lambda>json key. seq_py (modify_py (\<lambda>w. w\<lparr>as_queue := as_queue w @ [json]\<rparr>)) (return_py True)),
     rd_poll = (\<lambda>_. serve),
     rd_flush = (\<lambda>_. serve),
     rd_destroy = return_py ()\<rparr>"

definition sim_fwrite :: "bool \<Rightarrow> string \<Rightarrow> (ag_script, bool \<times> nat) py" where
  "sim_fwrite healthy rec = (\<lambda>w. case as_cuts w of [] \<Rightarrow> Some (Inr (True, length rec), w)
     | n # ns \<Rightarrow> Some (Inr (True, if healthy then length rec else n), w\<lparr>as_cuts := ns\<rparr>))"

definition sim_agent_os :: "bool \<Rightarrow> ag_script agent_os" where
  "sim_agent_os healthy = \<lparr>
     parse_file = (\<lambda>_. get_py as_toml),
     os_gethostname = return_py (Some ''h''),
     os_mkdir = (\<lambda>_. return_py ()),
     system_ms = return_py 5,
     steady_ns = (\<lambda>w. Some (Inr (as_clock w), w\<lparr>as_clock := as_clock w + seconds 11\<rparr>)),
     sig_running = (\<lambda>w. Some (Inr (as_rounds w \<noteq> 0), w\<lparr>as_rounds := as_rounds w - 1\<rparr>)),
     fs_open = return_py True,
     fs_fwrite = sim_fwrite healthy,
     fs_readable = return_py True,
     fs_clear = return_py (True, True),
     fs_stat = return_py True,
     bpf_open_and_load = return_py True,
     bpf_attach = return_py 0,
     ring_buffer_new = return_py True,
     ring_buffer_poll = (\<lambda>_ w. case as_batches w of [] \<Rightarrow> Some (Inr ([], 0), w)
       | b # bs \<Rightarrow> Some (Inr (filter event_ok b, int (length b)), w\<lparr>as_batches := bs\<rparr>)),
     ring_buffer_free = return_py (),
     bpf_destroy = return_py (),
     percpu_counter = (\<lambda>_. return_py 0)\<rparr>"

lemma served: "atomic as_see (=) (\<lambda>v r v'. report_eff v r v' \<and> unreported v' = {#}) serve"
proof -
  have "map rep_json (map (\<lambda>(e, j). \<lparr>rep_err = e, rep_json = j\<rparr>) (zip (errs @ replicate (length q) False) q)) = q" for errs and q :: "string list"
  proof -
    have "map snd (zip (errs @ replicate (length q) False) q) = q" by (simp add: map_snd_zip_take)
    then show ?thesis by (simp add: comp_def case_prod_unfold)
  qed
  then show ?thesis by (simp add: atomic_def serve_def Let_def report_eff_def as_see_def)
qed

interpretation ags: agent_env as_see sim_rdkafka "sim_agent_os healthy" healthy
proof unfold_locales
  fix json key rec :: string and t :: int
  show "atomic as_see (=) (produce_eff json) (rd_produce sim_rdkafka json key)"
    by (simp add: atomic_def sim_rdkafka_def produce_eff_def as_see_def py_defs)
  have "atomic as_see (=) report_eff serve" "atomic as_see (=) (\<lambda>v r v'. report_eff v r v' \<and> provided h (unreported v' = {#})) serve" for h
    using served by (fastforce simp: atomic_def provided_def)+
  then show "atomic as_see (=) report_eff (rd_poll sim_rdkafka t)"
    "atomic as_see (=) (\<lambda>v r v'. report_eff v r v' \<and> provided (healthy \<and> 10000 \<le> t) (unreported v' = {#})) (rd_flush sim_rdkafka t)"
    by (simp_all add: sim_rdkafka_def)
  show "gives as_see (\<lambda>(evts, err). \<forall>evt \<in> set evts. event_ok evt) (ring_buffer_poll (sim_agent_os healthy) t)"
    by (auto simp: gives_def sim_agent_os_def as_see_def split: list.split)
  show "gives as_see (\<lambda>(written, reached). provided healthy (written \<and> length rec \<le> reached)) (fs_fwrite (sim_agent_os healthy) rec)"
    by (auto simp: gives_def sim_agent_os_def sim_fwrite_def provided_def as_see_def split: list.split)
qed (auto simp: gives_def sim_rdkafka_def sim_agent_os_def provided_def as_see_def py_defs)

text \<open>The flag is seen set at most \<open>as_rounds\<close> times.\<close>

interpretation agt: agent_signal as_rounds sim_rdkafka "sim_agent_os healthy"
proof unfold_locales
  show "still as_rounds (fs_fwrite (sim_agent_os healthy) rec)" for rec
    by (auto simp: still_def sim_agent_os_def sim_fwrite_def split: list.split)
  show "still as_rounds (ring_buffer_poll (sim_agent_os healthy) t)" for t
    by (auto simp: still_def sim_agent_os_def split: list.split)
  show "\<exists>running w'. sig_running (sim_agent_os healthy) w = Some (Inr running, w') \<and> as_rounds w' \<le> as_rounds w \<and>
      (running \<longrightarrow> as_rounds w' < as_rounds w)" for w
    by (simp add: sim_agent_os_def)
qed (simp_all add: still_def sim_rdkafka_def sim_agent_os_def serve_def Let_def py_defs)

subsection \<open>Example runs\<close>

definition ex_change :: "string \<Rightarrow> file_event" where
  "ex_change name = \<lparr>ts_ns = 0, event_type = EVENT_MTIME, depth = 2, names = [name, ''home'']\<rparr>"

definition ex_machine :: "bool list \<Rightarrow> nat list \<Rightarrow> file_event list list \<Rightarrow> nat \<Rightarrow> ag_script" where
  "ex_machine errs cuts batches rounds = \<lparr>as_queue = [], as_acked = [], as_errs = errs, as_cuts = cuts, as_batches = batches,
     as_rounds = rounds, as_clock = 0, as_toml = Some [(''wal'', Toml_table [(''max_size_mb'', Toml_int 0)])]\<rparr>"

definition ex_agent :: "ag_script \<Rightarrow> ag_script agent" where
  "ex_agent w = \<lparr>outside = w, ag_hostname = [], ag_limit = 0, ag_wal = \<lparr>wal_fp = False, wal_file = [], records_written = 0\<rparr>,
     rk_ptr = False, rkt_ptr = False, ectx = \<lparr>ctx_debouncer = \<lparr>quiet_period = 0, max_wait = 0, entries = []\<rparr>, watch_prefix = [],
       pending_rename_from = [], has_pending_rename = False\<rparr>, kafka_sent = 0, kafka_failed = 0, wal_replayed = 0, prev_drops = 0,
     last_stats = 0, last_wal_retry = 0, trace = [], lost = []\<rparr>"

text \<open>The state after start-up, with a log limited to 0 MB: whatever Kafka refuses is given up.\<close>

definition ex_booted :: "ag_script \<Rightarrow> ag_script agent" where
  "ex_booted w = (ex_agent w)\<lparr>ag_hostname := ''h'', ag_limit := 0, ag_wal := \<lparr>wal_fp = True, wal_file = [], records_written = 0\<rparr>,
     rk_ptr := True, rkt_ptr := True, ectx := \<lparr>ctx_debouncer = \<lparr>quiet_period = seconds 10, max_wait = seconds 3600, entries = []\<rparr>,
       watch_prefix = ''/home'', pending_rename_from = [], has_pending_rename = False\<rparr>\<rparr>"

lemma bind_returns: "m s = Some (Inr x, t) \<Longrightarrow> bind_py m f s = f x t"
  by (simp add: bind_py_def)

lemma ex_mkdirs: "for_py ds (\<lambda>dir. call (os_mkdir (sim_agent_os healthy) dir)) s = Some (Inr (), s)"
  by (induction ds arbitrary: s) (simp_all add: py_defs call_def sim_agent_os_def)

lemma ex_boots:
  "agent_main sim_rdkafka (sim_agent_os healthy) [] (ex_agent (ex_machine errs cuts batches rounds)) =
    bind_py (attach_and_run sim_rdkafka (sim_agent_os healthy))
      (\<lambda>status. seq_py (kafka_delete sim_rdkafka (sim_agent_os healthy)) (return_py status)) (ex_booted (ex_machine errs cuts batches rounds))"
proof -
  let ?w = "ex_machine errs cuts batches rounds" and ?OS = "sim_agent_os healthy"
  let ?cfg = "default_config\<lparr>wal_max_size_mb := 0\<rparr>"
  have parse: "call (parse_file ?OS p) (ex_agent ?w) = Some (Inr (Some [(''wal'', Toml_table [(''max_size_mb'', Toml_int 0)])]), ex_agent ?w)" for p
    by (simp add: call_def sim_agent_os_def py_defs ex_machine_def ex_agent_def)
  have conf: "config_load (Some [(''wal'', Toml_table [(''max_size_mb'', Toml_int 0)])]) default_config = (True, ?cfg)"
    by (simp add: config_load_def as_table_def str_setting_def u64_setting_def value_or_u64_def value_u64_def node_integer_cast_def default_config_def)
  have host: "get_hostname ?OS s = Some (Inr ''h'', s)" and opened: "call (fs_open ?OS) s = Some (Inr True, s)"
    and modify: "modify_py f s = Some (Inr (), f s)" for s f
    by (simp_all add: get_hostname_def sim_agent_os_def py_defs call_def)
  have create: "kafka_create sim_rdkafka b t s = Some (Inr (), s\<lparr>rk_ptr := True, rkt_ptr := True\<rparr>)" for b t s
    by (simp add: kafka_create_def sim_rdkafka_def py_defs call_def set_rk_def conf_settings_def)
  have "millis 10000 = seconds 10" "millis 3600000 = seconds 3600" by (simp_all add: millis_def seconds_def)
  then have "(start_state ?cfg ''h'' (ex_agent ?w))\<lparr>ag_wal := wal_open True (ag_wal (start_state ?cfg ''h'' (ex_agent ?w))),
      rk_ptr := True, rkt_ptr := True\<rparr> = ex_booted ?w"
    by (simp add: start_state_def default_config_def ex_booted_def ex_agent_def wal_max_bytes_def wal_open_def)
  then show ?thesis
    by (simp add: agent_main_def Let_def seq_py_def bind_returns parse conf host modify ex_mkdirs opened create)
qed

subsection \<open>Properties\<close>

lemma agent_main_outcome:
  assumes env: "agent_env see K OS healthy"
    and fresh: "trace s = []" "lost s = []" "unreported (see (outside s)) = {#}"
    and log: "provided healthy (\<exists>ds. wal_holds (ag_wal s) ds)"
    and run: "agent_main K OS argv s = Some (r, s')"
  shows "\<exists>status. r = Inr status \<and>
    ends_well healthy see (acked (see (outside s)) + mset (wal_records (wal_file (ag_wal s)))) status s'"
proof -
  have "wp True (agent_main K OS argv) (ends_well healthy see (acked (see (outside s)) + mset (wal_records (wal_file (ag_wal s))))) (\<lambda>_ _. False) s"
    using agent_env.agent_main_ends [OF env fresh log] agent_env.start_of_def [OF env] by simp
  with run show ?thesis by (auto simp: wp_def split: sum.splits)
qed

text \<open>
  C11: every message is accounted for. For every run of the agent that ends, whatever Kafka, the disk and the
  signals do, counting each message as often as it occurs: what the log held at the start and what the agent built is
  acknowledged by the broker, waiting for a delivery report, readable in the log, or recorded as given up.
  The run ends with status 0 or 1.
\<close>

theorem agent_accounts_for_messages:
  assumes "agent_env see K OS False" and "trace s = []" and "lost s = []" and "unreported (see (outside s)) = {#}"
    and "agent_main K OS argv s = Some (r, s')"
  shows "\<exists>status. r = Inr status \<and> (status = 0 \<or> status = 1) \<and>
    acked (see (outside s)) + mset (wal_records (wal_file (ag_wal s))) + mset (built s') \<subseteq>#
      acked (see (outside s')) + unreported (see (outside s')) + mset (wal_records (wal_file (ag_wal s'))) + mset (map snd (lost s'))"
proof -
  have "provided False (\<exists>ds. wal_holds (ag_wal s) ds)" by (simp add: provided_def)
  from agent_main_outcome [OF assms(1-4) this assms(5)] show ?thesis by (auto simp: ends_well_def held_def)
qed

theorem agent_accounts_for_messages_witness:
  "\<exists>s'. agent_main sim_rdkafka (sim_agent_os False) [] (ex_agent (ex_machine [True] [] [[ex_change ''a'']] 1)) = Some (Inr 0, s') \<and>
     length (built s') = 1 \<and> mset (built s') \<subseteq># mset (as_acked (outside s')) + mset (as_queue (outside s')) +
       mset (wal_records (wal_file (ag_wal s'))) + mset (map snd (lost s'))"
proof -
  let ?s = "ex_agent (ex_machine [True] [] [[ex_change ''a'']] 1)"
  have "map_option (\<lambda>(r, t). (r, length (built t))) (agent_main sim_rdkafka (sim_agent_os False) [] ?s) = Some (Inr 0, 1)"
    unfolding ex_boots by code_simp
  then obtain s' where run: "agent_main sim_rdkafka (sim_agent_os False) [] ?s = Some (Inr 0, s')" and one: "length (built s') = 1"
    by auto
  have "trace ?s = []" "lost ?s = []" "unreported (as_see (outside ?s)) = {#}"
    by (simp_all add: ex_agent_def ex_machine_def as_see_def)
  from agent_accounts_for_messages [OF ags.agent_env_axioms this run] run one show ?thesis
    by (auto simp: ex_agent_def ex_machine_def as_see_def)
qed



text \<open>
  C4: at-least-once delivery on a healthy machine. If the disk works, Kafka's client reports every message within
  its timeout and the log was in order, then after an end with status 0 everything that was in the log and everything
  the agent built is acknowledged by the broker or readable in the log, except for messages given up because
  the log had reached its configured size; nothing is left without a report.
\<close>

theorem agent_at_least_once:
  assumes "agent_env see K OS True" and "trace s = []" and "lost s = []" and "unreported (see (outside s)) = {#}"
    and "wal_holds (ag_wal s) ds" and "agent_main K OS argv s = Some (Inr 0, s')"
  shows "acked (see (outside s)) + mset ds + mset (built s') \<subseteq>#
      acked (see (outside s')) + mset (wal_records (wal_file (ag_wal s'))) + mset (map snd (lost s')) \<and>
    (\<forall>(why, json) \<in> set (lost s'). why = Over_limit)"
proof -
  have "provided True (\<exists>ds. wal_holds (ag_wal s) ds)" using assms(5) by (auto simp: provided_def)
  from agent_main_outcome [OF assms(1-4) this assms(6)]
  have "acked (see (outside s)) + mset ds + mset (built s') \<subseteq># held see s'" "unreported (see (outside s')) = {#}"
    "\<forall>(why, json) \<in> set (lost s'). why = Over_limit"
    by (auto simp: ends_well_def provided_def wal_holds_read [OF assms(5)])
  then show ?thesis by (simp add: held_def)
qed

theorem agent_at_least_once_witness:
  "\<exists>s'. agent_main sim_rdkafka (sim_agent_os True) [] (ex_agent (ex_machine [] [] [[ex_change ''a'']] 1)) = Some (Inr 0, s') \<and>
     length (built s') = 1 \<and> lost s' = [] \<and> mset (built s') \<subseteq># mset (as_acked (outside s')) + mset (wal_records (wal_file (ag_wal s')))"
proof -
  let ?s = "ex_agent (ex_machine [] [] [[ex_change ''a'']] 1)"
  have "map_option (\<lambda>(r, t). (r, length (built t), lost t = [])) (agent_main sim_rdkafka (sim_agent_os True) [] ?s) = Some (Inr 0, 1, True)"
    unfolding ex_boots by code_simp
  then obtain s' where run: "agent_main sim_rdkafka (sim_agent_os True) [] ?s = Some (Inr 0, s')"
    and s': "length (built s') = 1" "lost s' = []" by auto
  have "trace ?s = []" "lost ?s = []" "unreported (as_see (outside ?s)) = {#}" "wal_holds (ag_wal ?s) []"
    by (simp_all add: ex_agent_def ex_machine_def as_see_def wal_holds_def)
  from agent_at_least_once [OF ags.agent_env_axioms this run] run s' show ?thesis
    by (auto simp: as_see_def ex_agent_def ex_machine_def)
qed

text \<open>
  C13: the agent stops when it is told to. If every call it makes returns and the flag \<open>running\<close> is seen set only a
  bounded number of times (\<open>rank\<close>), \<open>main\<close> ends, from whatever log and with whatever failures, and its status is 0 or 1:
  no replay of the log, flush or shutdown goes on for ever.
\<close>

theorem agent_stops:
  assumes "agent_signal rank K OS" and "agent_env see K OS False" and "trace s = []" and "lost s = []"
    and "unreported (see (outside s)) = {#}"
  shows "\<exists>status s'. agent_main K OS argv s = Some (Inr status, s') \<and> (status = 0 \<or> status = 1)"
proof -
  from stillD [OF agent_signal.agent_main_returns [OF assms(1)], of argv s]
  obtain r s' where run: "agent_main K OS argv s = Some (r, s')" by blast
  have "provided False (\<exists>ds. wal_holds (ag_wal s) ds)" by (simp add: provided_def)
  from agent_main_outcome [OF assms(2-5) this run] run show ?thesis by (auto simp: ends_well_def)
qed

theorem agent_stops_witness:
  "\<exists>status s'. agent_main sim_rdkafka (sim_agent_os False) [] (ex_agent (ex_machine [True] [] [[ex_change ''a'']] 7)) =
     Some (Inr status, s') \<and> (status = 0 \<or> status = 1)"
  by (rule agent_stops [OF agt.agent_signal_axioms ags.agent_env_axioms])
    (simp_all add: ex_agent_def ex_machine_def as_see_def)

end
