(* ===== verification/Startup.thy ===== *)
theory Startup
  imports Prune ConsumerMain BackupLock
begin

text \<open>
  How the three Python programs start: the configuration file named on the command line, its log level, and
  then the rest of \<open>main\<close> (\<open>backup_main\<close>, \<open>prune_main\<close>, \<open>consumer_main\<close>). \<open>toml.load\<close> is a parameter; \<open>up\<close> is what
  \<open>str.upper\<close> makes of a string that is not ASCII. Handlers and formats of the logging package are left out.
\<close>

subsection \<open>Log level\<close>

definition upper_char :: "char \<Rightarrow> char" where
  "upper_char c = (if 97 \<le> ord_of c \<and> ord_of c \<le> 122 then char_of (ord_of c - 32) else c)"

definition str_upper :: "(string \<Rightarrow> string) \<Rightarrow> string \<Rightarrow> string" where
  "str_upper up s = (if list_all (\<lambda>c. ord_of c < 128) s then map upper_char s else up s)"

text \<open>The attributes of the module \<open>logging\<close> whose names have no small letters.\<close>

datatype logging_attr = Level int | Text | Other_value

definition logging_getattr :: "string \<Rightarrow> logging_attr option" where
  "logging_getattr name = map_of [(''NOTSET'', Level 0), (''DEBUG'', Level 10), (''INFO'', Level 20), (''WARNING'', Level 30),
     (''WARN'', Level 30), (''ERROR'', Level 40), (''CRITICAL'', Level 50), (''FATAL'', Level 50),
     (''BASIC_FORMAT'', Text), (''_STYLES'', Other_value)] name"

text \<open>
  \<open>level = cfg.get("logging", {}).get("level", "INFO")\<close>, then \<open>getattr(logging, level.upper(), logging.INFO)\<close> as the
  level of the root logger: a string that is no level name is a \<open>ValueError\<close>, another object a \<open>TypeError\<close>.
\<close>

definition set_up_logging :: "(string \<Rightarrow> string) \<Rightarrow> config \<Rightarrow> exn + int" where
  "set_up_logging up cfg = (case cfg_get_get cfg ''logging'' ''level'' (CStr ''INFO'') of
     CStr level \<Rightarrow> (case logging_getattr (str_upper up level) of
         None \<Rightarrow> Inr 20
       | Some (Level n) \<Rightarrow> Inr n
       | Some Text \<Rightarrow> Inl ValueError
       | Some Other_value \<Rightarrow> Inl TypeError)
   | _ \<Rightarrow> Inl AttributeError)"

subsection \<open>The programs\<close>

definition config_path :: "string list \<Rightarrow> string" where
  "config_path argv = (if length argv > 1 then argv ! 1 else ''config.toml'')"

definition backup_program ::
  "(string \<Rightarrow> ('w, config) py) \<Rightarrow> (string \<Rightarrow> string) \<Rightarrow> 'w redis_client \<Rightarrow> 'w os \<Rightarrow> (tasks \<Rightarrow> tasks) \<Rightarrow> string list \<Rightarrow> ('w run_state, unit) py" where
  "backup_program toml_load up R OS sched argv =
     bind_py (on_outside (toml_load (config_path argv))) (\<lambda>cfg.
     bind_py (lift_sum (set_up_logging up cfg)) (\<lambda>level. backup_main R OS sched cfg))"

definition prune_program ::
  "(string \<Rightarrow> ('w, config) py) \<Rightarrow> (string \<Rightarrow> string) \<Rightarrow> 'w redis_client \<Rightarrow> 'w minio_client \<Rightarrow> 'w os \<Rightarrow> string list \<Rightarrow> ('w, unit) py" where
  "prune_program toml_load up R M OS argv =
     bind_py (toml_load (config_path argv)) (\<lambda>cfg.
     bind_py (lift_sum (set_up_logging up cfg)) (\<lambda>level. prune_main R M OS cfg))"

definition consumer_program ::
  "(string \<Rightarrow> ('w, config) py) \<Rightarrow> (string \<Rightarrow> string) \<Rightarrow> 'w redis_client \<Rightarrow> 'w kafka \<Rightarrow> 'w host \<Rightarrow> string list \<Rightarrow> ('w daemon, unit) py" where
  "consumer_program toml_load up R K H argv =
     bind_py (in_world (toml_load (config_path argv))) (\<lambda>cfg.
     bind_py (lift_sum (set_up_logging up cfg)) (\<lambda>level. consumer_main R K H cfg))"

subsection \<open>Start-up leaves Redis alone\<close>

context backup_env
begin

lemma connect_attempts_wp:
  assumes url: "\<And>u. quiet view rely (rd_from_url R u)" and here: "rely v (view w)"
  shows "wp False (connect_attempts R OS cfg ns) (\<lambda>_ w. rely v (view w)) (\<lambda>_ w. rely v (view w)) w"
  using here
proof (induction ns arbitrary: w)
  case Nil
  then show ?case by (simp add: wp_rules)
next
  case (Cons n ns)
  have nap: "wp False (os_sleep OS secs) (\<lambda>_ w. rely v (view w)) (\<lambda>_ w. rely v (view w)) u"
    if "rely v (view u)" for secs u
    by (rule atomic_wp [OF conjunct1 [OF sleep_call [unfolded os_call_def]]]) (use that rely_trans in blast)+
  have conn: "wp False (rd_from_url R u) (\<lambda>_ w. rely v (view w)) (\<lambda>_ w. rely v (view w)) w" for u
    by (rule atomic_wp [OF url]) (use Cons.prems rely_trans in auto)
  have png: "wp False (rd_ping R) (\<lambda>_ w. rely v (view w)) (\<lambda>_ w. rely v (view w)) u" if "rely v (view u)" for u
    by (rule atomic_wp [OF ping]) (use that rely_trans in \<open>auto simp: read_eff_def\<close>)
  show ?case
    by (simp add: wp_rules Cons.prems split: sum.split)
      (auto simp: wp_rules Cons.prems intro!: wp_mono [OF conn] wp_mono [OF png] wp_mono [OF nap] Cons.IH)
qed

lemma backup_program_wp:
  assumes load: "\<And>path. quiet view rely (toml_load path)" and url: "\<And>u. quiet view rely (rd_from_url R u)"
    and sched: "\<And>ts. set (sched ts) = set ts"
  shows "wp False (backup_program toml_load up R OS sched argv)
     (\<lambda>_ t. strings (view (outside t)) LOCK_KEY = None \<or> tried_lock rely (view (outside s)) False (view (outside t)))
     (\<lambda>e t. strings (view (outside t)) LOCK_KEY = None \<or> rely (view (outside s)) (view (outside t)) \<or> is_RedisError e) s"
proof -
  define here where "here t \<longleftrightarrow> rely (view (outside s)) (view (outside t))" for t :: "'w run_state"
  have toml: "wp False (on_outside (toml_load p)) (\<lambda>_. here) (\<lambda>_. here) s" for p
    unfolding wp_on_outside here_def by (rule atomic_wp [OF load]) auto
  have conn: "wp False (on_outside (connect_attempts R OS cfg ns)) (\<lambda>_. here) (\<lambda>_. here) t" if "here t" for t cfg ns
    unfolding wp_on_outside here_def using that
    by (intro wp_mono [OF connect_attempts_wp [OF url, of "view (outside s)"]]) (simp_all add: here_def)
  have count: "wp False (on_outside (rd_hlen R key)) (\<lambda>_. here) (\<lambda>_. here) t" if "here t" for t key
    unfolding wp_on_outside here_def
    by (rule atomic_wp [OF hlen]) (use that rely_trans in \<open>auto simp: read_eff_def here_def\<close>)
  have run: "wp False (run_backup R OS sched cfg)
     (\<lambda>_ t. strings (view (outside t)) LOCK_KEY = None \<or> tried_lock rely (view (outside s)) False (view (outside t)))
     (\<lambda>e t. strings (view (outside t)) LOCK_KEY = None \<or> here t \<or> is_RedisError e) t" if "here t" for t cfg
    by (rule wp_mono [OF run_backup_wp [OF sched]])
      (use that rely_trans in \<open>unfold tried_lock_def here_def, blast+\<close>)
  have main: "wp False (backup_main R OS sched cfg)
     (\<lambda>_ t. strings (view (outside t)) LOCK_KEY = None \<or> tried_lock rely (view (outside s)) False (view (outside t)))
     (\<lambda>e t. strings (view (outside t)) LOCK_KEY = None \<or> here t \<or> is_RedisError e) t" if "here t" for t cfg
    unfolding backup_main_def wp_bind wp_seq
    by (rule wp_mono [OF conn [OF that]], rule wp_mono [OF count], assumption) (simp_all add: run)
  show ?thesis
    unfolding backup_program_def here_def [symmetric] wp_bind wp_lift_sum
    by (rule wp_mono [OF toml]) (auto split: sum.split intro: main)
qed

end

subsection \<open>Properties\<close>

text \<open>
  C8: \<open>backup.py\<close> as a whole, from its command line to its exit, ends and leaves no lock of its own behind. When
  it returns, the lock is free or was refused; when it raises (a configuration that cannot be read, a log level
  that is none, a Redis that cannot be reached, an exception in the run), the lock is free, or Redis was not
  touched, or the exception is a Redis error. Reading the file and making a client do not touch Redis.
\<close>

theorem backup_program_releases_lock:
  assumes env: "backup_env view rely R fr todo rank OS audit" and sched: "\<forall>ts. set (sched ts) = set ts"
    and load: "\<forall>path. quiet view rely (toml_load path)" and url: "\<forall>u. quiet view rely (rd_from_url R u)"
  shows "\<exists>r s'. backup_program toml_load up R OS sched argv s = Some (r, s') \<and>
    (case r of
       Inr _ \<Rightarrow> strings (view (outside s')) LOCK_KEY = None \<or> tried_lock rely (view (outside s)) False (view (outside s'))
     | Inl e \<Rightarrow> strings (view (outside s')) LOCK_KEY = None \<or> rely (view (outside s)) (view (outside s')) \<or> is_RedisError e)"
  using sched load url by (intro wp_total_outcome backup_env.backup_program_wp [OF env]) simp_all

text \<open>The configuration is read without fail; Redis refuses the first two connections.\<close>

abbreviation ex_load :: "string \<Rightarrow> (site, config) py" where
  "ex_load path \<equiv> return_py ex_cfg"

theorem backup_program_releases_lock_witness:
  "\<exists>s'. backup_program ex_load id (site_redis id) site_os id [''backup.py'']
       (ex_run_state (ex_site [0, 0, 0, 1, 1, 1] [True, True])) = Some (Inr (), s') \<and>
     strings (mem_view (outside s')) LOCK_KEY = None"
proof -
  let ?s = "ex_run_state (ex_site [0, 0, 0, 1, 1, 1] [True, True])"
  let ?run = "backup_program ex_load id (site_redis id) site_os id [''backup.py''] ?s"
  have run: "map_option fst ?run = Some (Inr ())" by code_simp
  have free: "\<not> tried_lock (=) (mem_view (outside ?s)) False v" for v
    by (simp add: tried_lock_def db_set_nx_ex_def db_live_def ex_run_state_def ex_site_def mem_view_def)
  have load: "\<forall>path. quiet mem_view (=) (ex_load path)"
    and url: "\<forall>u. quiet mem_view (=) (rd_from_url (site_redis id) u)"
    by (simp_all add: atomic_def return_py_def site_redis_def mem_redis_def)
  obtain r s' where out: "?run = Some (r, s')"
    and post: "case r of
       Inr _ \<Rightarrow> strings (mem_view (outside s')) LOCK_KEY = None \<or> tried_lock (=) (mem_view (outside ?s)) False (mem_view (outside s'))
     | Inl e \<Rightarrow> strings (mem_view (outside s')) LOCK_KEY = None \<or> mem_view (outside ?s) = mem_view (outside s') \<or> is_RedisError e"
    using backup_program_releases_lock [OF site.backup_env_axioms _ load url, of id id "[''backup.py'']" ?s] by auto
  from run out have r: "r = Inr ()" by simp
  from post [unfolded r sum.case] free out [unfolded r] show ?thesis by blast
qed

lemma refused_pings:
  assumes "cfg_item cfg ''db'' ''redis_url'' = Inr u" and "m_faults w = replicate n True @ False # rest"
  shows "connect_attempts (site_redis fr) site_os cfg [1..max_retries] w =
    (if n < 3 then Some (Inr (), w\<lparr>m_faults := rest, st_clock := st_clock w + [0, 10, 30] ! n\<rparr>)
     else Some (Inl (SystemExit 1), w\<lparr>m_faults := drop 3 (m_faults w), st_clock := st_clock w + 30\<rparr>))"
proof -
  have ping: "rd_ping (mem_redis fr) w = (case m_faults w of [] \<Rightarrow> Some (Inr (), w)
      | b # bs \<Rightarrow> Some (if b then Inl RedisConnectionError else Inr (), w\<lparr>m_faults := bs\<rparr>))" for w :: site
    by (simp add: mem_redis_def mem_call_def split: list.split)
  have calls: "rd_from_url (site_redis fr) u w = Some (Inr (), w)"
    "os_sleep site_os t w = Some (Inr (), w\<lparr>st_clock := st_clock w + t\<rparr>)" for w u t
    by (simp_all add: site_redis_def mem_redis_def site_os_def modify_py_def)
  consider "n = 0" | "n = 1" | "n = 2" | k where "n = Suc (Suc (Suc k))"
    by (metis One_nat_def Suc_1 not0_implies_Suc)
  then show ?thesis unfolding upto_retries
    by cases (simp_all add: assms max_retries_def ping calls bind_py_def seq_py_def return_py_def raise_py_def
      lift_sum_def try_except_def replicate_Suc numeral_2_eq_2 numeral_3_eq_3)
qed



end
